theory Spec2Isabelle
  imports Complex_Main
begin

section \<open>JavaScript values\<close>

text \<open>
  The adapter of \<^verbatim>\<open>src/lmstudio.ts\<close> handles untyped values (\<^verbatim>\<open>any\<close>): the items to
  embed, the arguments of \<^verbatim>\<open>embed_batch\<close> and the JSON bodies the server sends. They are
  modelled by the datatype \<open>jsval\<close>. A string is a list of code units, one \<open>char\<close> each, so
  \<open>length\<close> is the \<^verbatim>\<open>.length\<close> of the source; a \<open>char\<close> has 256 values, so the strings of
  the model are those whose code units are below 256. A number is an exact rational or one
  of the three special values of a double; the rounding of doubles is not modelled. An
  object is the list of its own properties in enumeration order, as \<^verbatim>\<open>JSON.parse\<close> builds
  it, with each key once.
\<close>

datatype jsnum = Fin rat | NaN | PosInf | NegInf

datatype jsval =
    JUndefined
  | JNull
  | JBool bool
  | JNum jsnum
  | JStr string
  | JArr "jsval list"
  | JObj "(string \<times> jsval) list"

text \<open>\<^verbatim>\<open>x == null\<close>: the values that \<^verbatim>\<open>??\<close> and \<^verbatim>\<open>?.\<close> skip.\<close>

fun nullish :: "jsval \<Rightarrow> bool" where
  "nullish JUndefined = True"
| "nullish JNull = True"
| "nullish _ = False"

text \<open>
  \<^verbatim>\<open>v?.k\<close> for the property names the source reads (\<^verbatim>\<open>data\<close>, \<^verbatim>\<open>id\<close>, \<^verbatim>\<open>text\<close>, ...): none
  of them is a property of a primitive or of an array, so only an object can hold one.
\<close>

fun get_prop :: "jsval \<Rightarrow> string \<Rightarrow> jsval" where
  "get_prop (JObj kvs) k = (case map_of kvs k of Some v \<Rightarrow> v | None \<Rightarrow> JUndefined)"
| "get_prop _ k = JUndefined"

text \<open>\<^verbatim>\<open>a ?? b ?? ... ?? null\<close>: the first operand that is neither undefined nor null.\<close>

fun coalesce :: "jsval list \<Rightarrow> jsval" where
  "coalesce [] = JNull"
| "coalesce (v # vs) = (if nullish v then coalesce vs else v)"

fun num_zero :: "jsnum \<Rightarrow> bool" where
  "num_zero (Fin q) = (q = 0)"
| "num_zero _ = False"

fun truthy :: "jsval \<Rightarrow> bool" where
  "truthy JUndefined = False"
| "truthy JNull = False"
| "truthy (JBool b) = b"
| "truthy (JNum n) = (n \<noteq> NaN \<and> \<not> num_zero n)"
| "truthy (JStr s) = (s \<noteq> [])"
| "truthy (JArr xs) = True"
| "truthy (JObj kvs) = True"

text \<open>\<^verbatim>\<open>Number.isFinite(v)\<close>: no coercion, so only a finite number passes.\<close>

fun isFinite :: "jsval \<Rightarrow> bool" where
  "isFinite (JNum (Fin q)) = True"
| "isFinite _ = False"

fun num_less :: "jsnum \<Rightarrow> jsnum \<Rightarrow> bool" where
  "num_less (Fin a) (Fin b) = (a < b)"
| "num_less (Fin a) PosInf = True"
| "num_less NegInf (Fin b) = True"
| "num_less NegInf PosInf = True"
| "num_less _ _ = False"

fun num_add :: "jsnum \<Rightarrow> jsnum \<Rightarrow> jsnum" where
  "num_add (Fin a) (Fin b) = Fin (a + b)"
| "num_add NaN _ = NaN"
| "num_add _ NaN = NaN"
| "num_add PosInf NegInf = NaN"
| "num_add NegInf PosInf = NaN"
| "num_add PosInf _ = PosInf"
| "num_add _ PosInf = PosInf"
| "num_add NegInf _ = NegInf"
| "num_add _ NegInf = NegInf"

text \<open>\<^verbatim>\<open>x <= 0\<close> on a value that \<^verbatim>\<open>Number.isFinite\<close> has accepted.\<close>

fun le_zero :: "jsval \<Rightarrow> bool" where
  "le_zero (JNum (Fin q)) = (q \<le> 0)"
| "le_zero _ = False"

text \<open>
  \<^verbatim>\<open>String.prototype.trim\<close> strips white space and line terminators at both ends. Of
  those, the code units below 256 are tab, line feed, vertical tab, form feed, carriage
  return, space and no-break space.
\<close>

definition js_space :: "char \<Rightarrow> bool" where
  "js_space c = (of_char c \<in> {9, 10, 11, 12, 13, 32, 160 :: nat})"

definition trim :: "string \<Rightarrow> string" where
  "trim s = rev (dropWhile js_space (rev (dropWhile js_space s)))"

section \<open>The environment: server, clock and runtime conversions\<close>

text \<open>
  A request is one call of \<^verbatim>\<open>fetch\<close>: \<^verbatim>\<open>GET /v1/models\<close>, or \<^verbatim>\<open>POST /v1/embeddings\<close>
  with a model and an input that is one string or an array of strings.
\<close>

datatype embed_input = Single string | Many "string list"

datatype request = GetModels | PostEmbeddings string embed_input

text \<open>
  What \<^verbatim>\<open>fetch\<close> and \<^verbatim>\<open>res.text()\<close> give back. The text of a response is empty (also
  when reading it fails: the source maps that to the empty string), or it does not parse as
  JSON, or it parses to a value.
\<close>

datatype body = NoText | Unparsable | Parsed jsval

datatype reply = Aborted | NetworkFailure | Http int body

datatype error =
    Timeout
  | Network
  | HttpStatus int
  | Malformed
  | InvalidEmbedding
  | EmptyResponse
  | NoModelsAvailable

text \<open>
  The server answers a request knowing every request made before it. \<^verbatim>\<open>String(v)\<close> of a
  number and \<^verbatim>\<open>Number(v)\<close> of a string are conversions of the JavaScript runtime; they are
  parameters of the model. The other cases of the two conversions are those of the
  language, for objects that do not define \<^verbatim>\<open>toString\<close> or \<^verbatim>\<open>valueOf\<close> themselves.
\<close>

record env =
  respond :: "request list \<Rightarrow> request \<Rightarrow> reply"
  num_to_string :: "jsnum \<Rightarrow> string"
  string_to_num :: "string \<Rightarrow> jsnum"

fun join :: "string list \<Rightarrow> string" where
  "join [] = []"
| "join [s] = s"
| "join (s # t # ss) = s @ '','' @ join (t # ss)"

fun to_String :: "env \<Rightarrow> jsval \<Rightarrow> string" where
  "to_String E JUndefined = ''undefined''"
| "to_String E JNull = ''null''"
| "to_String E (JBool b) = (if b then ''true'' else ''false'')"
| "to_String E (JNum n) = num_to_string E n"
| "to_String E (JStr s) = s"
| "to_String E (JArr xs) = join (map (\<lambda>x. if nullish x then [] else to_String E x) xs)"
| "to_String E (JObj kvs) = ''[object Object]''"

fun to_Number :: "env \<Rightarrow> jsval \<Rightarrow> jsnum" where
  "to_Number E JUndefined = NaN"
| "to_Number E JNull = Fin 0"
| "to_Number E (JBool b) = Fin (if b then 1 else 0)"
| "to_Number E (JNum n) = n"
| "to_Number E (JStr s) = string_to_num E s"
| "to_Number E (JArr xs) = string_to_num E (to_String E (JArr xs))"
| "to_Number E (JObj kvs) = NaN"

section \<open>Module and adapter state\<close>

record LmStudioSettings =
  baseUrl :: string
  requestTimeoutMs :: jsnum
  maxTokens :: jsnum
  batchSize :: jsnum

text \<open>
  \<^verbatim>\<open>this.model\<close> is the model configuration the host hands to the adapter. The source
  reads and writes the fields below and no other; \<^verbatim>\<open>model\<close> and \<^verbatim>\<open>model.data\<close> are
  each absent or an object, and every field holds any value (\<open>JUndefined\<close> when missing).
  \<open>debounce_save\<close> says whether the model has the save hook.
\<close>

record model_data =
  batch_size :: jsval
  max_batch_size :: jsval
  dims :: jsval
  model_key :: jsval
  model :: jsval
  model_id :: jsval
  id' :: jsval
  provider_models :: jsval

record model_cfg =
  data :: "model_data option"
  own_model_key :: jsval
  own_id :: jsval
  debounce_save :: bool

datatype adapter_state = unloaded | loaded

text \<open>
  \<open>settings\<close>, \<open>cachedModels\<close> and \<open>lastFetchedAt\<close> are the module's variables;
  \<open>this_model\<close> and \<open>this_state\<close> the adapter's fields. \<open>clock\<close> is what \<^verbatim>\<open>Date.now()\<close>
  returns, \<open>requests\<close> the network calls made so far, in order, and \<open>saves\<close> the number of
  times the save hook has been invoked.
\<close>

record world =
  settings :: LmStudioSettings
  cachedModels :: "(string \<times> jsval) list"
  lastFetchedAt :: int
  this_model :: "model_cfg option"
  this_state :: adapter_state
  clock :: int
  requests :: "request list"
  saves :: nat

definition initial_settings :: LmStudioSettings where
  "initial_settings =
     \<lparr>baseUrl = ''http://127.0.0.1:1234'', requestTimeoutMs = Fin 120000,
      maxTokens = Fin 512, batchSize = Fin 16\<rparr>"

text \<open>The state after the module is loaded and \<^verbatim>\<open>new LmStudioEmbeddingAdapter(m)\<close>.\<close>

definition initial_world :: "model_cfg option \<Rightarrow> int \<Rightarrow> world" where
  "initial_world m t =
     \<lparr>settings = initial_settings, cachedModels = [], lastFetchedAt = 0, this_model = m,
      this_state = unloaded, clock = t, requests = [], saves = 0\<rparr>"

text \<open>\<^verbatim>\<open>this?.model?.data\<close>.\<close>

definition this_data :: "world \<Rightarrow> model_data option" where
  "this_data w = (case this_model w of None \<Rightarrow> None | Some m \<Rightarrow> data m)"

text \<open>\<^verbatim>\<open>this?.model?.data?.f\<close> for a field \<open>f\<close> of the data.\<close>

definition data_field :: "(model_data \<Rightarrow> jsval) \<Rightarrow> world \<Rightarrow> jsval" where
  "data_field f w = (case this_data w of None \<Rightarrow> JUndefined | Some d \<Rightarrow> f d)"

definition model_field :: "(model_cfg \<Rightarrow> jsval) \<Rightarrow> world \<Rightarrow> jsval" where
  "model_field f w = (case this_model w of None \<Rightarrow> JUndefined | Some m \<Rightarrow> f m)"

text \<open>An assignment to fields of \<^verbatim>\<open>this.model.data\<close>, made where the data exists.\<close>

definition update_data :: "(model_data \<Rightarrow> model_data) \<Rightarrow> world \<Rightarrow> world" where
  "update_data f w =
     (case this_model w of
        None \<Rightarrow> w
      | Some m \<Rightarrow>
          (case data m of
             None \<Rightarrow> w
           | Some d \<Rightarrow> w\<lparr>this_model := Some (m\<lparr>data := Some (f d)\<rparr>)\<rparr>))"

text \<open>\<^verbatim>\<open>this.model.debounce_save?.()\<close>, reached only where \<^verbatim>\<open>this.model\<close> exists.\<close>

definition call_debounce_save :: "world \<Rightarrow> world" where
  "call_debounce_save w =
     (case this_model w of
        None \<Rightarrow> w
      | Some m \<Rightarrow> if debounce_save m then w\<lparr>saves := Suc (saves w)\<rparr> else w)"

section \<open>HTTP client\<close>

text \<open>
  \<^verbatim>\<open>fetchJson\<close>: one network call. It throws when \<^verbatim>\<open>fetch\<close> is aborted by the timeout or
  fails, when the status is not 2xx (\<^verbatim>\<open>!res.ok\<close>), and when the text is not JSON; an
  empty text gives \<^verbatim>\<open>null\<close>.
\<close>

definition fetchJson :: "env \<Rightarrow> request \<Rightarrow> world \<Rightarrow> (error + jsval) \<times> world" where
  "fetchJson E req w =
     (let w' = w\<lparr>requests := requests w @ [req]\<rparr> in
      case respond E (requests w) req of
        Aborted \<Rightarrow> (Inl Timeout, w')
      | NetworkFailure \<Rightarrow> (Inl Network, w')
      | Http status b \<Rightarrow>
          if \<not> (200 \<le> status \<and> status < 300) then (Inl (HttpStatus status), w')
          else (case b of
                  NoText \<Rightarrow> (Inr JNull, w')
                | Unparsable \<Rightarrow> (Inl Malformed, w')
                | Parsed v \<Rightarrow> (Inr v, w')))"

section \<open>Model catalog\<close>

text \<open>
  The keys of an object are enumerated with the array indices first, in ascending order,
  then the other strings in the order of their creation. An array index is the canonical
  decimal form of a number below \<open>2^32 - 1\<close>.
\<close>

definition digit :: "char \<Rightarrow> bool" where
  "digit c = (48 \<le> (of_char c :: nat) \<and> (of_char c :: nat) \<le> 57)"

definition digits_value :: "string \<Rightarrow> int" where
  "digits_value s = foldl (\<lambda>n c. 10 * n + (of_char c - 48)) 0 s"

definition array_index :: "string \<Rightarrow> int option" where
  "array_index s =
     (if s \<noteq> [] \<and> list_all digit s \<and> (s = ''0'' \<or> hd s \<noteq> CHR ''0'')
         \<and> digits_value s < 4294967295
      then Some (digits_value s) else None)"

definition index_below :: "int \<Rightarrow> string \<times> 'v \<Rightarrow> bool" where
  "index_below n kv = (case array_index (fst kv) of Some m \<Rightarrow> m < n | None \<Rightarrow> False)"

text \<open>
  \<^verbatim>\<open>obj[k] = v\<close> on an object created by \<^verbatim>\<open>{}\<close> and given by its own properties in
  enumeration order. The key \<^verbatim>\<open>__proto__\<close> is the accessor of the prototype: assigning to it
  adds no own property.
\<close>

definition obj_set :: "(string \<times> 'v) list \<Rightarrow> string \<Rightarrow> 'v \<Rightarrow> (string \<times> 'v) list" where
  "obj_set kvs k v =
     (if k = ''__proto__'' then kvs
      else if k \<in> set (map fst kvs) then map (\<lambda>kv. if fst kv = k then (k, v) else kv) kvs
      else case array_index k of
             Some n \<Rightarrow> takeWhile (index_below n) kvs @ [(k, v)] @ dropWhile (index_below n) kvs
           | None \<Rightarrow> kvs @ [(k, v)])"

text \<open>The body of the loop of \<^verbatim>\<open>listModels\<close> over the entries of the listing.\<close>

definition add_model ::
  "env \<Rightarrow> LmStudioSettings \<Rightarrow> (string \<times> jsval) list \<Rightarrow> jsval \<Rightarrow> (string \<times> jsval) list" where
  "add_model E st next m =
     (let raw = get_prop m ''id'';
          i = trim (if nullish raw then [] else to_String E raw)
      in if i = [] then next
         else obj_set next i
                (JObj [(''id'', JStr i), (''name'', JStr i), (''model_key'', JStr i),
                       (''model'', JStr i),
                       (''description'', JStr ''LM Studio local embedding model''),
                       (''max_tokens'', JNum (maxTokens st)),
                       (''batch_size'', JNum (batchSize st)),
                       (''use_gpu'', JBool False), (''adapter'', JStr ''lmstudio'')]))"

definition listModels ::
  "env \<Rightarrow> bool \<Rightarrow> world \<Rightarrow> (error + (string \<times> jsval) list) \<times> world" where
  "listModels E refresh w =
     (let now = clock w in
      if \<not> refresh \<and> now - lastFetchedAt w < 15000 \<and> cachedModels w \<noteq> []
      then (Inr (cachedModels w), w)
      else case fetchJson E GetModels w of
             (Inl e, w1) \<Rightarrow> (Inl e, w1)
           | (Inr d, w1) \<Rightarrow>
               (let models = (case get_prop d ''data'' of JArr ms \<Rightarrow> ms | _ \<Rightarrow> []);
                    next = foldl (add_model E (settings w1)) [] models
                in (Inr next, w1\<lparr>cachedModels := next, lastFetchedAt := now\<rparr>)))"

section \<open>Input normalizer\<close>

text \<open>The operands of the chain of \<^verbatim>\<open>??\<close> in \<^verbatim>\<open>coerceToText\<close>, in its order.\<close>

definition probed_fields :: "jsval \<Rightarrow> jsval list" where
  "probed_fields item =
     [get_prop item ''embed_input'',
      get_prop item ''text'',
      get_prop item ''content'',
      get_prop item ''input'',
      get_prop (get_prop item ''data'') ''embed_input'',
      get_prop (get_prop item ''data'') ''text'',
      get_prop (get_prop item ''data'') ''content'']"

definition coerceToText :: "jsval \<Rightarrow> string" where
  "coerceToText item =
     (case item of
        JStr s \<Rightarrow> s
      | _ \<Rightarrow> (case coalesce (probed_fields item) of JStr s \<Rightarrow> s | _ \<Rightarrow> []))"

definition normalizeBatchInputs :: "jsval list \<Rightarrow> string list" where
  "normalizeBatchInputs inputs =
     map (\<lambda>item. let text = coerceToText item; trimmed = trim text
                 in if trimmed \<noteq> [] then trimmed else '' '') inputs"

definition estimateTokens :: "string \<Rightarrow> nat" where
  "estimateTokens text = max 1 (nat \<lceil>rat_of_nat (length text) / 4\<rceil>)"

section \<open>Embedding requests\<close>

definition createEmbeddings ::
  "env \<Rightarrow> string \<Rightarrow> embed_input \<Rightarrow> world \<Rightarrow> (error + jsval) \<times> world" where
  "createEmbeddings E m input = fetchJson E (PostEmbeddings m input)"

text \<open>The loop of \<^verbatim>\<open>extractEmbeddings\<close>: it throws at the first entry without an array.\<close>

fun extract_loop :: "jsval list \<Rightarrow> jsval list list \<Rightarrow> error + jsval list list" where
  "extract_loop [] out = Inr out"
| "extract_loop (it # its) out =
     (case get_prop it ''embedding'' of
        JArr emb \<Rightarrow> extract_loop its (out @ [emb])
      | _ \<Rightarrow> Inl InvalidEmbedding)"

definition extractEmbeddings :: "jsval \<Rightarrow> error + jsval list list" where
  "extractEmbeddings d =
     extract_loop (case get_prop d ''data'' of JArr xs \<Rightarrow> xs | _ \<Rightarrow> []) []"

definition embedOne ::
  "env \<Rightarrow> string \<Rightarrow> string \<Rightarrow> world \<Rightarrow> (error + jsval list) \<times> world" where
  "embedOne E modelKey text w =
     (case createEmbeddings E modelKey (Single text) w of
        (Inl e, w1) \<Rightarrow> (Inl e, w1)
      | (Inr d, w1) \<Rightarrow>
          (case extractEmbeddings d of
             Inl e \<Rightarrow> (Inl e, w1)
           | Inr [] \<Rightarrow> (Inl EmptyResponse, w1)
           | Inr (v # vs) \<Rightarrow> (Inr v, w1)))"

subsection \<open>Chunking\<close>

text \<open>
  The index arguments of \<^verbatim>\<open>Array.prototype.slice\<close>: truncated towards zero, counted from
  the end when negative, and clamped to the length.
\<close>

definition trunc :: "rat \<Rightarrow> int" where
  "trunc q = (if 0 \<le> q then \<lfloor>q\<rfloor> else \<lceil>q\<rceil>)"

fun rel_index :: "nat \<Rightarrow> jsnum \<Rightarrow> nat" where
  "rel_index len (Fin q) =
     (if trunc q < 0 then nat (max (int len + trunc q) 0) else min (nat (trunc q)) len)"
| "rel_index len NaN = 0"
| "rel_index len PosInf = len"
| "rel_index len NegInf = 0"

definition slice :: "'a list \<Rightarrow> jsnum \<Rightarrow> jsnum \<Rightarrow> 'a list" where
  "slice xs a b =
     (let start = rel_index (length xs) a; stop = rel_index (length xs) b
      in take (stop - start) (drop start xs))"

text \<open>
  \<^verbatim>\<open>for (let i = 0; i < items.length; i += size) out.push(items.slice(i, i + size))\<close>.
  The loop does not end when the size \<open>sz\<close> is zero or negative, so it is a partial
  function: \<open>None\<close> is the loop that runs forever. The index is added in exact arithmetic:
  where the doubles of the code round, a fractional size can cut the groups at other places,
  and a positive size too small to move the index makes the code loop forever.
\<close>

partial_function (option) chunk_loop ::
  "'a list \<Rightarrow> jsnum \<Rightarrow> jsnum \<Rightarrow> 'a list list \<Rightarrow> 'a list list option" where
  "chunk_loop items sz i out =
     (if num_less i (Fin (of_nat (length items)))
      then chunk_loop items sz (num_add i sz) (out @ [slice items i (num_add i sz)])
      else Some out)"

definition chunk :: "'a list \<Rightarrow> jsnum \<Rightarrow> 'a list list option" where
  "chunk items sz = chunk_loop items sz (Fin 0) []"

section \<open>The adapter\<close>

record EmbeddingResult =
  vec :: "jsval list"
  tokens :: "nat option"

definition coerceRefreshArg :: "jsval \<Rightarrow> bool" where
  "coerceRefreshArg arg =
     (case arg of
        JBool b \<Rightarrow> b
      | JObj kvs \<Rightarrow> if ''refresh'' \<in> set (map fst kvs) then truthy (get_prop arg ''refresh'') else False
      | _ \<Rightarrow> False)"

text \<open>\<^verbatim>\<open>Object.keys(v).length\<close>.\<close>

fun keys_length :: "jsval \<Rightarrow> nat" where
  "keys_length (JStr s) = length s"
| "keys_length (JArr xs) = length xs"
| "keys_length (JObj kvs) = length (remdups (map fst kvs))"
| "keys_length _ = 0"

definition get_models ::
  "env \<Rightarrow> jsval \<Rightarrow> world \<Rightarrow> (error + (string \<times> jsval) list) \<times> world" where
  "get_models E refreshOrOpts w =
     (let refresh = coerceRefreshArg refreshOrOpts in
      case listModels E refresh w of
        (Inl e, w1) \<Rightarrow> (Inl e, w1)
      | (Inr models, w1) \<Rightarrow>
          (case this_data w1 of
             None \<Rightarrow> (Inr models, w1)
           | Some d \<Rightarrow>
               if \<not> truthy (provider_models d) \<or> keys_length (provider_models d) = 0
               then (Inr models, update_data (\<lambda>d. d\<lparr>provider_models := JObj models\<rparr>) w1)
               else (Inr models, w1)))"

text \<open>
  The first part of \<^verbatim>\<open>ensureModelKey\<close>: the configured key, trimmed, or the empty
  string when the first field that is set is not a string.
\<close>

definition configured_key :: "world \<Rightarrow> string" where
  "configured_key w =
     (let candidate =
            coalesce
              [data_field model_key w, data_field model w, data_field model_id w,
               data_field id' w, model_field own_model_key w, model_field own_id w]
      in case candidate of JStr s \<Rightarrow> trim s | _ \<Rightarrow> [])"

definition ensureModelKey :: "env \<Rightarrow> world \<Rightarrow> (error + string) \<times> world" where
  "ensureModelKey E w =
     (let key = configured_key w
      in if key \<noteq> [] then (Inr key, w)
         else case get_models E (JBool True) w of
                (Inl e, w1) \<Rightarrow> (Inl e, w1)
              | (Inr ms, w1) \<Rightarrow>
                  (let fallback = (case map fst (cachedModels w1) of [] \<Rightarrow> [] | k # ks \<Rightarrow> trim k)
                   in if fallback = [] then (Inl NoModelsAvailable, w1)
                      else case this_data w1 of
                             None \<Rightarrow> (Inr fallback, w1)
                           | Some d \<Rightarrow>
                               (Inr fallback,
                                call_debounce_save
                                  (update_data
                                     (\<lambda>d. d\<lparr>model_key := JStr fallback, model := JStr fallback\<rparr>)
                                     w1))))"

text \<open>\<^verbatim>\<open>Array.from({ length: dims }, () => 0)\<close>: the length is truncated and not negative.\<close>

fun to_length :: "jsnum \<Rightarrow> nat" where
  "to_length (Fin q) = nat (min (trunc q) 9007199254740991)"
| "to_length PosInf = 9007199254740991"
| "to_length _ = 0"

definition padToLength :: "world \<Rightarrow> jsval list list \<Rightarrow> nat \<Rightarrow> jsval list list" where
  "padToLength w vectors targetLength =
     (if length vectors \<ge> targetLength then take targetLength vectors
      else
        let d = (case (if isFinite (data_field dims w) then data_field dims w else JNull) of
                   JNum n \<Rightarrow> n
                 | _ \<Rightarrow> (case vectors of v # vs \<Rightarrow> Fin (of_nat (length v)) | [] \<Rightarrow> Fin 1536))
        in vectors @ replicate (targetLength - length vectors) (replicate (to_length d) (JNum (Fin 0))))"

definition ensureBatchSize :: "env \<Rightarrow> world \<Rightarrow> jsnum \<times> world" where
  "ensureBatchSize E w =
     (let fallback = batchSize (settings w);
          candidate = to_Number E (data_field batch_size w);
          valid = (if isFinite (JNum candidate) \<and> num_less (Fin 0) candidate then candidate else fallback)
      in case this_data w of
           None \<Rightarrow> (valid, w)
         | Some d \<Rightarrow>
             (valid,
              call_debounce_save
                (update_data
                   (\<lambda>d. if \<not> isFinite (max_batch_size d) \<or> le_zero (max_batch_size d)
                        then d\<lparr>max_batch_size := JNum valid\<rparr> else d)
                   (update_data
                      (\<lambda>d. if \<not> isFinite (batch_size d) \<or> le_zero (batch_size d)
                           then d\<lparr>batch_size := JNum valid\<rparr> else d)
                      w))))"

text \<open>The getter \<^verbatim>\<open>batch_size\<close>.\<close>

definition get_batch_size :: "env \<Rightarrow> world \<Rightarrow> jsnum \<times> world" where
  "get_batch_size E w = ensureBatchSize E w"

text \<open>The three loops of \<^verbatim>\<open>coerceBatchInputsFromArgs\<close>.\<close>

fun first_nonempty_array :: "jsval list \<Rightarrow> jsval list option" where
  "first_nonempty_array [] = None"
| "first_nonempty_array (a # as) =
     (case a of
        JArr xs \<Rightarrow> if xs \<noteq> [] then Some xs else first_nonempty_array as
      | _ \<Rightarrow> first_nonempty_array as)"

definition is_object :: "jsval \<Rightarrow> bool" where
  "is_object a = (case a of JArr xs \<Rightarrow> True | JObj kvs \<Rightarrow> True | _ \<Rightarrow> False)"

fun first_array_field :: "jsval list \<Rightarrow> jsval list option" where
  "first_array_field [] = None"
| "first_array_field (a # as) =
     (if is_object a
      then case coalesce
                  [get_prop a ''texts'', get_prop a ''inputs'', get_prop a ''items'',
                   get_prop (get_prop a ''data'') ''texts'',
                   get_prop (get_prop a ''data'') ''inputs'',
                   get_prop (get_prop a ''data'') ''items''] of
             JArr xs \<Rightarrow> if xs \<noteq> [] then Some xs else first_array_field as
           | _ \<Rightarrow> first_array_field as
      else first_array_field as)"

fun first_array :: "jsval list \<Rightarrow> jsval list option" where
  "first_array [] = None"
| "first_array (a # as) = (case a of JArr xs \<Rightarrow> Some xs | _ \<Rightarrow> first_array as)"

definition coerceBatchInputsFromArgs :: "jsval list \<Rightarrow> jsval list" where
  "coerceBatchInputsFromArgs args =
     (case first_nonempty_array args of
        Some xs \<Rightarrow> xs
      | None \<Rightarrow>
          (case first_array_field args of
             Some xs \<Rightarrow> xs
           | None \<Rightarrow> (case first_array args of Some xs \<Rightarrow> xs | None \<Rightarrow> [])))"

text \<open>\<^verbatim>\<open>for (const one of group) recovered.push(await embedOne(modelKey, one))\<close>.\<close>

fun embed_each ::
  "env \<Rightarrow> string \<Rightarrow> string list \<Rightarrow> world \<Rightarrow> (error + jsval list list) \<times> world" where
  "embed_each E modelKey [] w = (Inr [], w)"
| "embed_each E modelKey (one # rest) w =
     (case embedOne E modelKey one w of
        (Inl e, w1) \<Rightarrow> (Inl e, w1)
      | (Inr v, w1) \<Rightarrow>
          (case embed_each E modelKey rest w1 of
             (Inl e, w2) \<Rightarrow> (Inl e, w2)
           | (Inr vs, w2) \<Rightarrow> (Inr (v # vs), w2)))"

text \<open>The \<^verbatim>\<open>try\<close> block of the loop over the groups: the vectors it would push.\<close>

definition try_group ::
  "env \<Rightarrow> string \<Rightarrow> string list \<Rightarrow> world \<Rightarrow> (error + jsval list list) \<times> world" where
  "try_group E modelKey grp w =
     (case createEmbeddings E modelKey (Many grp) w of
        (Inl e, w1) \<Rightarrow> (Inl e, w1)
      | (Inr d, w1) \<Rightarrow>
          (case extractEmbeddings d of
             Inl e \<Rightarrow> (Inl e, w1)
           | Inr embeddings \<Rightarrow>
               if length embeddings \<noteq> length grp then embed_each E modelKey grp w1
               else (Inr (take (length grp) embeddings), w1)))"

text \<open>The \<^verbatim>\<open>try\<close> with its \<^verbatim>\<open>catch\<close>, which embeds the group text by text.\<close>

definition embed_group ::
  "env \<Rightarrow> string \<Rightarrow> string list \<Rightarrow> world \<Rightarrow> (error + jsval list list) \<times> world" where
  "embed_group E modelKey grp w =
     (case try_group E modelKey grp w of
        (Inr vs, w1) \<Rightarrow> (Inr vs, w1)
      | (Inl err, w1) \<Rightarrow> embed_each E modelKey grp w1)"

text \<open>The inference of the dimensions, at the end of each turn of the loop.\<close>

definition infer_dims :: "jsval list list \<Rightarrow> world \<Rightarrow> world" where
  "infer_dims vectors w =
     (case vectors of
        [] \<Rightarrow> w
      | v # vs \<Rightarrow>
          (case this_data w of
             None \<Rightarrow> w
           | Some d \<Rightarrow>
               if \<not> isFinite (dims d)
               then call_debounce_save
                      (update_data (\<lambda>d. d\<lparr>dims := JNum (Fin (of_nat (length v)))\<rparr>) w)
               else w))"

fun embed_groups ::
  "env \<Rightarrow> string \<Rightarrow> string list list \<Rightarrow> jsval list list \<Rightarrow> world
     \<Rightarrow> (error + jsval list list) \<times> world" where
  "embed_groups E modelKey [] vectors w = (Inr vectors, w)"
| "embed_groups E modelKey (grp # grps) vectors w =
     (case embed_group E modelKey grp w of
        (Inl e, w1) \<Rightarrow> (Inl e, w1)
      | (Inr vs, w1) \<Rightarrow>
          embed_groups E modelKey grps (vectors @ vs) (infer_dims (vectors @ vs) w1))"

text \<open>
  \<^verbatim>\<open>padded.map((vec, idx) => ({ vec, tokens: estimateTokens(normalized[idx] ?? "") }))\<close>.
\<close>

definition wrap_results :: "string list \<Rightarrow> jsval list list \<Rightarrow> EmbeddingResult list" where
  "wrap_results normalized padded =
     map (\<lambda>(idx, v).
            \<lparr>vec = v,
             tokens = Some (estimateTokens (if idx < length normalized then normalized ! idx else []))\<rparr>)
         (zip [0 ..< length padded] padded)"

text \<open>
  \<^verbatim>\<open>embed_batch(...args)\<close>. The result is \<open>None\<close> when the call does not return, an error
  when it throws, and the list of results otherwise; the state is the one it leaves.
\<close>

definition embed_batch ::
  "env \<Rightarrow> jsval list \<Rightarrow> world \<Rightarrow> ((error + EmbeddingResult list) \<times> world) option" where
  "embed_batch E args w =
     (let coerced = coerceBatchInputsFromArgs args in
      if coerced = [] then Some (Inr [], w)
      else
        case ensureBatchSize E w of
          (bsz, w1) \<Rightarrow>
            (case ensureModelKey E w1 of
               (Inl e, w2) \<Rightarrow> Some (Inl e, w2)
             | (Inr modelKey, w2) \<Rightarrow>
                 (let normalized = normalizeBatchInputs coerced in
                  if normalized = [] then Some (Inr [], w2)
                  else
                    case chunk normalized bsz of
                      None \<Rightarrow> None
                    | Some grps \<Rightarrow>
                        (case embed_groups E modelKey grps [] w2 of
                           (Inl e, w3) \<Rightarrow> Some (Inl e, w3)
                         | (Inr vectors, w3) \<Rightarrow>
                             Some (Inr (wrap_results normalized
                                          (padToLength w3 vectors (length normalized))),
                                   w3)))))"

definition embed ::
  "env \<Rightarrow> jsval \<Rightarrow> world \<Rightarrow> ((error + EmbeddingResult) \<times> world) option" where
  "embed E texts w =
     (let inputs = (case texts of JArr xs \<Rightarrow> xs | _ \<Rightarrow> [texts]) in
      case embed_batch E [JArr inputs] w of
        None \<Rightarrow> None
      | Some (Inl e, w1) \<Rightarrow> Some (Inl e, w1)
      | Some (Inr items, w1) \<Rightarrow>
          Some (Inr (case items of [] \<Rightarrow> \<lparr>vec = [], tokens = None\<rparr> | r # rs \<Rightarrow> r), w1))"

section \<open>Example servers and inputs\<close>

text \<open>
  A server that answers each kind of request in a fixed way, whatever came before. The two
  runtime conversions are not reached on the example inputs.
\<close>

definition fixed_server ::
  "reply \<Rightarrow> (string list \<Rightarrow> reply) \<Rightarrow> (string \<Rightarrow> reply) \<Rightarrow> env" where
  "fixed_server a b c =
     \<lparr>respond = (\<lambda>h req. case req of
                             GetModels \<Rightarrow> a
                           | PostEmbeddings m (Many ts) \<Rightarrow> b ts
                           | PostEmbeddings m (Single t) \<Rightarrow> c t),
      num_to_string = (\<lambda>n. []), string_to_num = (\<lambda>s. NaN)\<rparr>"

text \<open>A vector that tells its text: the code units of the text.\<close>

definition vec_of :: "string \<Rightarrow> jsval list" where
  "vec_of t = map (\<lambda>c. JNum (Fin (of_nat (of_char c)))) t"

definition embedding_body :: "jsval list list \<Rightarrow> body" where
  "embedding_body vs =
     Parsed (JObj [(''data'', JArr (map (\<lambda>v. JObj [(''embedding'', JArr v)]) vs))])"

definition models_body :: "string list \<Rightarrow> body" where
  "models_body ids = Parsed (JObj [(''data'', JArr (map (\<lambda>i. JObj [(''id'', JStr i)]) ids))])"

text \<open>A server that lists two models and embeds every batch and every text.\<close>

definition good_server :: env where
  "good_server =
     fixed_server (Http 200 (models_body [''nomic'', ''7'']))
       (\<lambda>ts. Http 200 (embedding_body (map vec_of ts)))
       (\<lambda>t. Http 200 (embedding_body [vec_of t]))"

text \<open>A server with no model.\<close>

definition empty_server :: env where
  "empty_server =
     fixed_server (Http 200 (models_body []))
       (\<lambda>ts. Http 200 (embedding_body (map vec_of ts)))
       (\<lambda>t. Http 200 (embedding_body [vec_of t]))"

text \<open>A server that cannot be reached.\<close>

definition down_server :: env where
  "down_server = fixed_server NetworkFailure (\<lambda>ts. NetworkFailure) (\<lambda>t. NetworkFailure)"

text \<open>A model configuration with a data object and the save hook, and nothing set.\<close>

definition blank_data :: model_data where
  "blank_data =
     \<lparr>batch_size = JUndefined, max_batch_size = JUndefined, dims = JUndefined,
      model_key = JUndefined, model = JUndefined, model_id = JUndefined, id' = JUndefined,
      provider_models = JUndefined\<rparr>"

definition blank_model :: model_cfg where
  "blank_model =
     \<lparr>data = Some blank_data, own_model_key = JUndefined, own_id = JUndefined,
      debounce_save = True\<rparr>"

text \<open>The inputs of the example of the specification, and a model with batch size 2.\<close>

definition demo_items :: "jsval list" where
  "demo_items =
     [JStr ''hello'', JObj [(''text'', JStr ''world'')], JObj [(''embed_input'', JStr ''  '')]]"

definition demo_world :: world where
  "demo_world =
     initial_world
       (Some (blank_model\<lparr>data := Some (blank_data\<lparr>batch_size := JNum (Fin 2)\<rparr>)\<rparr>)) 1000"

declare chunk_loop.simps [code]

text \<open>
  A server that embeds by content: whenever a batch reply carries as many embeddings as the
  request has texts, they are the vectors \<open>f\<close> gives for the texts, in order; and the first
  embedding of a reply to a single text is the vector of that text.
\<close>

abbreviation batch_answers :: "env \<Rightarrow> (string \<Rightarrow> jsval list) \<Rightarrow> bool" where
  "batch_answers E f \<equiv>
     \<forall>h m ts s d embs.
       respond E h (PostEmbeddings m (Many ts)) = Http s (Parsed d)
       \<longrightarrow> extractEmbeddings d = Inr embs \<longrightarrow> length embs = length ts \<longrightarrow> embs = map f ts"

abbreviation single_answers :: "env \<Rightarrow> (string \<Rightarrow> jsval list) \<Rightarrow> bool" where
  "single_answers E f \<equiv>
     \<forall>h m t s d e es.
       respond E h (PostEmbeddings m (Single t)) = Http s (Parsed d)
       \<longrightarrow> extractEmbeddings d = Inr (e # es) \<longrightarrow> e = f t"


text \<open>A server that refuses every batch and embeds single texts.\<close>

definition single_only_server :: env where
  "single_only_server =
     fixed_server (Http 200 (models_body [''nomic'']))
       (\<lambda>ts. Http 500 NoText)
       (\<lambda>t. Http 200 (embedding_body [vec_of t]))"

text \<open>A server that lists a model and refuses every embedding request.\<close>

definition refusing_server :: env where
  "refusing_server =
     fixed_server (Http 200 (models_body [''nomic'']))
       (\<lambda>ts. Http 500 NoText)
       (\<lambda>t. Http 500 NoText)"





text \<open>The two batch size fields of the model data.\<close>

abbreviation sizes :: "world \<Rightarrow> jsval \<times> jsval" where
  "sizes w \<equiv> (data_field batch_size w, data_field max_batch_size w)"

text \<open>A model whose batch size is zero and whose maximal batch size is 8.\<close>

definition sized_world :: world where
  "sized_world =
     initial_world
       (Some (blank_model
                \<lparr>data := Some (blank_data\<lparr>batch_size := JNum (Fin 0),
                                           max_batch_size := JNum (Fin 8)\<rparr>)\<rparr>)) 1000"

section \<open>Input normalizer: the probed fields\<close>

lemma coalesce_first:
  "\<forall>p\<in>set pre. nullish p \<Longrightarrow> \<not> nullish v \<Longrightarrow> coalesce (pre @ v # post) = v"
  by (induction pre) auto

lemma coalesce_none: "\<forall>p\<in>set vs. nullish p \<Longrightarrow> coalesce vs = JNull"
  by (induction vs) auto

lemma coerceToText_nonstring:
  "\<forall>s. item \<noteq> JStr s \<Longrightarrow>
   coerceToText item = (case coalesce (probed_fields item) of JStr s \<Rightarrow> s | _ \<Rightarrow> [])"
  by (cases item) (simp_all add: coerceToText_def)

text \<open>
  C2, as stated, fails twice. An item whose only text is under \<^verbatim>\<open>data.input\<close> normalizes
  to a single space, because \<^verbatim>\<open>data.input\<close> is not among the probed fields; and an item
  whose \<^verbatim>\<open>embed_input\<close> is the number 5 and whose \<^verbatim>\<open>text\<close> is a string normalizes to a
  single space too, because the chain of \<^verbatim>\<open>??\<close> stops at the first field that is set.
\<close>

theorem coerceToText_data_input_counterexample:
  "normalizeBatchInputs [JObj [(''data'', JObj [(''input'', JStr ''hello'')])]] = ['' '']
   \<and> normalizeBatchInputs [JObj [(''embed_input'', JNum (Fin 5)), (''text'', JStr ''hello'')]]
       = ['' '']"
  by (simp add: normalizeBatchInputs_def coerceToText_def probed_fields_def trim_def)

text \<open>
  C2, amended. For an item that is not a string the normalizer probes, in this order, the
  fields \<^verbatim>\<open>embed_input\<close>, \<^verbatim>\<open>text\<close>, \<^verbatim>\<open>content\<close>, \<^verbatim>\<open>input\<close>, \<^verbatim>\<open>data.embed_input\<close>,
  \<^verbatim>\<open>data.text\<close> and \<^verbatim>\<open>data.content\<close>, and takes the first whose value is neither
  undefined nor null. If that value is a string, the item normalizes to it, trimmed (to a
  single space when nothing is left); if it is not a string, or if no field is set, the item
  normalizes to a single space.
\<close>

theorem normalize_first_set_field:
  assumes "\<forall>s. item \<noteq> JStr s"
  shows "(probed_fields item = pre @ v # post \<and> (\<forall>p\<in>set pre. nullish p) \<and> \<not> nullish v \<longrightarrow>
            normalizeBatchInputs [item] =
              [case v of JStr s \<Rightarrow> if trim s \<noteq> [] then trim s else '' '' | _ \<Rightarrow> '' ''])
       \<and> ((\<forall>p\<in>set (probed_fields item). nullish p) \<longrightarrow> normalizeBatchInputs [item] = ['' ''])"
proof (intro conjI impI)
  assume h: "probed_fields item = pre @ v # post \<and> (\<forall>p\<in>set pre. nullish p) \<and> \<not> nullish v"
  then have c: "coalesce (probed_fields item) = v"
    by (simp add: coalesce_first)
  from assms have "coerceToText item = (case v of JStr s \<Rightarrow> s | _ \<Rightarrow> [])"
    by (simp add: coerceToText_nonstring c)
  then show "normalizeBatchInputs [item] =
              [case v of JStr s \<Rightarrow> if trim s \<noteq> [] then trim s else '' '' | _ \<Rightarrow> '' '']"
    by (cases v) (simp_all add: normalizeBatchInputs_def trim_def)
next
  assume "\<forall>p\<in>set (probed_fields item). nullish p"
  then have c: "coalesce (probed_fields item) = JNull"
    by (rule coalesce_none)
  from assms have "coerceToText item = []"
    by (simp add: coerceToText_nonstring c)
  then show "normalizeBatchInputs [item] = ['' '']"
    by (simp add: normalizeBatchInputs_def trim_def)
qed

theorem normalize_first_set_field_witness:
  "normalizeBatchInputs
     [JObj [(''embed_input'', JNull), (''data'', JObj [(''text'', JStr ''  world '')])]]
     = [''world'']
   \<and> normalizeBatchInputs [JObj [(''note'', JStr ''x'')]] = ['' '']"
  using normalize_first_set_field
    [of "JObj [(''embed_input'', JNull), (''data'', JObj [(''text'', JStr ''  world '')])]"
        "[JNull, JUndefined, JUndefined, JUndefined, JUndefined]" "JStr ''  world ''"
        "[JUndefined]"]
    normalize_first_set_field [of "JObj [(''note'', JStr ''x'')]" "[]" JNull "[]"]
  by (simp add: probed_fields_def trim_def js_space_def)

section \<open>Model catalog: refresh and freshness\<close>

lemma fetchJson_frame:
  "fetchJson E req w = (r, w') \<Longrightarrow> w' = w\<lparr>requests := requests w @ [req]\<rparr>"
  by (auto simp: fetchJson_def Let_def split: reply.splits body.splits if_splits)

text \<open>
  C7. When a refresh is due (it is forced, or the snapshot is 15 seconds old or more, or
  it is empty), \<^verbatim>\<open>listModels\<close> makes the request. If the request fails, \<^verbatim>\<open>listModels\<close>
  fails with the same error and the snapshot and the time of the last refresh are as
  before. If it succeeds, the snapshot is replaced and the time of the last refresh is the
  time read at the start of the call.
\<close>

theorem listModels_refresh_outcome:
  assumes "refresh \<or> \<not> clock w - lastFetchedAt w < 15000 \<or> cachedModels w = []"
  shows "case fetchJson E GetModels w of
           (Inl e, w1) \<Rightarrow>
             listModels E refresh w = (Inl e, w1)
             \<and> cachedModels w1 = cachedModels w \<and> lastFetchedAt w1 = lastFetchedAt w
         | (Inr d, w1) \<Rightarrow>
             (\<exists>m. listModels E refresh w
                    = (Inr m, w1\<lparr>cachedModels := m, lastFetchedAt := clock w\<rparr>))"
proof (cases "fetchJson E GetModels w")
  case (Pair r w1)
  then have w1: "w1 = w\<lparr>requests := requests w @ [GetModels]\<rparr>"
    by (rule fetchJson_frame)
  show ?thesis
    using assms Pair w1 by (cases r) (auto simp: listModels_def Let_def)
qed

theorem listModels_refresh_outcome_witness:
  "listModels down_server True
      ((initial_world None 1000)\<lparr>cachedModels := [(''m'', JNull)], lastFetchedAt := 900\<rparr>)
    = (Inl Network,
       (initial_world None 1000)
         \<lparr>cachedModels := [(''m'', JNull)], lastFetchedAt := 900, requests := [GetModels]\<rparr>)"
  using listModels_refresh_outcome
    [of True "(initial_world None 1000)\<lparr>cachedModels := [(''m'', JNull)], lastFetchedAt := 900\<rparr>"
        down_server]
  by (simp add: fetchJson_def down_server_def fixed_server_def initial_world_def)

text \<open>
  C6, as stated, fails when the server lists no model: the snapshot of the first call is
  empty, an empty snapshot is never reused, and the second call, one second later, queries
  the server again.
\<close>

theorem listModels_twice_counterexample:
  "requests (snd (listModels empty_server False
      ((snd (listModels empty_server False (initial_world None 1000)))\<lparr>clock := 2000\<rparr>)))
   = [GetModels, GetModels]"
  by (simp add: listModels_def fetchJson_def empty_server_def fixed_server_def initial_world_def
      models_body_def Let_def)

text \<open>
  C6, amended. When the first call of \<^verbatim>\<open>listModels(false)\<close> queries the server and gets a
  snapshot that is not empty, a second call less than 15 seconds after the first makes no
  network call and returns the same snapshot: the two calls make exactly one network call.
\<close>

theorem listModels_twice_one_call:
  assumes "\<not> (clock w - lastFetchedAt w < 15000 \<and> cachedModels w \<noteq> [])"
    and "listModels E False w = (Inr m, w1)"
    and "m \<noteq> []"
    and "t2 - clock w < 15000"
  shows "requests w1 = requests w @ [GetModels]
       \<and> listModels E False (w1\<lparr>clock := t2\<rparr>) = (Inr m, w1\<lparr>clock := t2\<rparr>)"
proof -
  obtain r w0 where f: "fetchJson E GetModels w = (r, w0)"
    by (cases "fetchJson E GetModels w")
  then have w0: "w0 = w\<lparr>requests := requests w @ [GetModels]\<rparr>"
    by (rule fetchJson_frame)
  from assms(1,2) f obtain d where r: "r = Inr d"
    and w1: "w1 = w0\<lparr>cachedModels := m, lastFetchedAt := clock w\<rparr>"
    by (cases r) (auto simp: listModels_def Let_def)
  from w1 w0 have "requests w1 = requests w @ [GetModels]" by simp
  moreover from w1 w0 assms(3,4)
  have "listModels E False (w1\<lparr>clock := t2\<rparr>) = (Inr m, w1\<lparr>clock := t2\<rparr>)"
    by (simp add: listModels_def Let_def)
  ultimately show ?thesis by simp
qed

theorem listModels_twice_one_call_witness:
  "requests (snd (listModels good_server False (initial_world None 1000))) = [GetModels]
   \<and> listModels good_server False
        ((snd (listModels good_server False (initial_world None 1000)))\<lparr>clock := 2000\<rparr>)
      = (fst (listModels good_server False (initial_world None 1000)),
         (snd (listModels good_server False (initial_world None 1000)))\<lparr>clock := 2000\<rparr>)"
proof -
  have "case listModels good_server False (initial_world None 1000) of
          (Inr m, w1) \<Rightarrow> m \<noteq> [] | (Inl e, w1) \<Rightarrow> False"
    by code_simp
  then obtain m w1 where l: "listModels good_server False (initial_world None 1000) = (Inr m, w1)"
    and m: "m \<noteq> []"
    by (auto split: prod.splits sum.splits)
  have "\<not> (clock (initial_world None 1000) - lastFetchedAt (initial_world None 1000) < 15000
          \<and> cachedModels (initial_world None 1000) \<noteq> [])"
    by (simp add: initial_world_def)
  moreover have "2000 - clock (initial_world None 1000) < 15000"
    by (simp add: initial_world_def)
  ultimately show ?thesis
    using listModels_twice_one_call [of "initial_world None 1000" good_server m w1 2000] l m
    by (simp add: initial_world_def)
qed


section \<open>The batch engine: one result per input\<close>

lemma embed_each_length:
  "embed_each E k g w = (Inr vs, w') \<Longrightarrow> length vs = length g"
  by (induction g arbitrary: w vs w') (auto split: prod.splits sum.splits)

lemma try_group_length:
  "try_group E k g w = (Inr vs, w') \<Longrightarrow> length vs = length g"
  by (auto simp: try_group_def embed_each_length split: prod.splits sum.splits if_splits)

lemma embed_group_length:
  "embed_group E k g w = (Inr vs, w') \<Longrightarrow> length vs = length g"
  by (auto simp: embed_group_def try_group_length embed_each_length split: prod.splits sum.splits)

lemma embed_groups_length:
  "embed_groups E k gs acc w = (Inr vs, w') \<Longrightarrow> length vs = length acc + length (concat gs)"
proof (induction gs arbitrary: acc w)
  case Nil
  then show ?case by simp
next
  case (Cons g gs)
  then show ?case
    by (auto split: prod.splits sum.splits dest!: embed_group_length)
qed

lemma length_padToLength: "length (padToLength w vs n) = n"
  by (simp add: padToLength_def Let_def)

lemma length_wrap_results: "length (wrap_results nz p) = length p"
  by (simp add: wrap_results_def)

lemma nth_wrap_results:
  "i < length p \<Longrightarrow>
   wrap_results nz p ! i =
     \<lparr>vec = p ! i, tokens = Some (estimateTokens (if i < length nz then nz ! i else []))\<rparr>"
  by (simp add: wrap_results_def)

lemma map_vec_wrap_results: "map vec (wrap_results nz p) = p"
  by (rule nth_equalityI) (simp_all add: wrap_results_def)

lemma length_normalizeBatchInputs: "length (normalizeBatchInputs xs) = length xs"
  by (simp add: normalizeBatchInputs_def)

lemma embed_batch_cases:
  assumes "embed_batch E args w = Some (r, w')"
    and "coerceBatchInputsFromArgs args \<noteq> []"
  obtains (key_fails) e where
      "ensureModelKey E (snd (ensureBatchSize E w)) = (Inl e, w')" "r = Inl e"
  | (groups_fail) k w2 gs e where
      "ensureModelKey E (snd (ensureBatchSize E w)) = (Inr k, w2)"
      "chunk (normalizeBatchInputs (coerceBatchInputsFromArgs args)) (fst (ensureBatchSize E w)) = Some gs"
      "embed_groups E k gs [] w2 = (Inl e, w')" "r = Inl e"
  | (returns) k w2 gs vectors where
      "ensureModelKey E (snd (ensureBatchSize E w)) = (Inr k, w2)"
      "chunk (normalizeBatchInputs (coerceBatchInputsFromArgs args)) (fst (ensureBatchSize E w)) = Some gs"
      "embed_groups E k gs [] w2 = (Inr vectors, w')"
      "r = Inr (wrap_results (normalizeBatchInputs (coerceBatchInputsFromArgs args))
                 (padToLength w' vectors (length (coerceBatchInputsFromArgs args))))"
proof -
  let ?c = "coerceBatchInputsFromArgs args"
  obtain bsz w1 where b: "ensureBatchSize E w = (bsz, w1)"
    by (cases "ensureBatchSize E w")
  obtain rk w2 where k: "ensureModelKey E w1 = (rk, w2)"
    by (cases "ensureModelKey E w1")
  have nz: "normalizeBatchInputs ?c \<noteq> []"
    using assms(2) by (simp add: normalizeBatchInputs_def)
  show thesis
  proof (cases rk)
    case (Inl e)
    with assms b k have "w' = w2" "r = Inl e"
      by (simp_all add: embed_batch_def)
    with b k Inl show thesis
      by (intro key_fails [of e]) simp_all
  next
    case (Inr key)
    with assms b k nz obtain gs where
      gs: "chunk (normalizeBatchInputs ?c) bsz = Some gs"
      by (cases "chunk (normalizeBatchInputs ?c) bsz") (simp_all add: embed_batch_def)
    obtain rg w3 where g: "embed_groups E key gs [] w2 = (rg, w3)"
      by (cases "embed_groups E key gs [] w2")
    show thesis
    proof (cases rg)
      case (Inl e)
      with assms b k nz Inr gs g have "w' = w3" "r = Inl e"
        by (simp_all add: embed_batch_def)
      with b k Inr gs g Inl show thesis
        by (intro groups_fail [of key w2 gs e]) simp_all
    next
      case vs: (Inr vectors)
      with assms b k nz Inr gs g have "w' = w3"
        "r = Inr (wrap_results (normalizeBatchInputs ?c)
                   (padToLength w3 vectors (length (normalizeBatchInputs ?c))))"
        by (auto simp: embed_batch_def Let_def)
      with b k Inr gs g vs show thesis
        by (intro returns [of key w2 gs vectors]) (simp_all add: length_normalizeBatchInputs)
    qed
  qed
qed

lemma embed_batch_results:
  assumes "embed_batch E args w = Some (Inr res, w')"
  shows "\<exists>p. length p = length (coerceBatchInputsFromArgs args)
           \<and> res = wrap_results (normalizeBatchInputs (coerceBatchInputsFromArgs args)) p"
proof (cases "coerceBatchInputsFromArgs args = []")
  case True
  with assms show ?thesis
    by (simp add: embed_batch_def wrap_results_def)
next
  case False
  from assms False show ?thesis
  proof (cases rule: embed_batch_cases)
    case (returns k w2 gs vectors)
    then show ?thesis
      using length_padToLength by blast
  qed simp_all
qed

lemma estimateTokens_div: "estimateTokens t = max 1 ((length t + 3) div 4)"
proof -
  have "\<lceil>rat_of_nat (length t) / 4\<rceil> = \<lceil>of_int (int (length t)) / (of_int 4 :: rat)\<rceil>"
    by simp
  also have "\<dots> = - (- int (length t) div 4)"
    by (subst ceiling_divide_eq_div) simp
  finally have "nat \<lceil>rat_of_nat (length t) / 4\<rceil> = (length t + 3) div 4"
    by (simp; linarith)
  then show ?thesis
    by (simp add: estimateTokens_def)
qed

text \<open>
  C8. Every result that \<^verbatim>\<open>embed_batch\<close> returns stands at the position of an input item
  and carries the token count \<open>max(1, ceil(n / 4))\<close>, where \<open>n\<close> is the length of the
  normalized text of that item; the count is a positive integer.
\<close>

theorem embed_batch_tokens:
  assumes "embed_batch E args w = Some (Inr res, w')"
    and "i < length res"
  shows "i < length (normalizeBatchInputs (coerceBatchInputsFromArgs args))
       \<and> tokens (res ! i)
           = Some (max 1 (nat \<lceil>rat_of_nat (length (normalizeBatchInputs (coerceBatchInputsFromArgs args) ! i)) / 4\<rceil>))
       \<and> (\<exists>n. tokens (res ! i) = Some n \<and> 0 < n)"
proof -
  let ?nz = "normalizeBatchInputs (coerceBatchInputsFromArgs args)"
  from embed_batch_results [OF assms(1)] obtain p where
    p: "length p = length (coerceBatchInputsFromArgs args)" "res = wrap_results ?nz p"
    by blast
  from assms(2) p have i: "i < length p" "i < length ?nz"
    by (simp_all add: length_wrap_results length_normalizeBatchInputs)
  with p have t: "tokens (res ! i) = Some (estimateTokens (?nz ! i))"
    by (simp add: nth_wrap_results)
  have "0 < estimateTokens (?nz ! i)"
    by (simp add: estimateTokens_def)
  with t i show ?thesis
    by (simp add: estimateTokens_def)
qed


theorem embed_batch_tokens_witness:
  "\<exists>res w'. embed_batch good_server [JArr demo_items] demo_world = Some (Inr res, w')
      \<and> 2 < length res \<and> tokens (res ! 2) = Some 1"
proof -
  have "case embed_batch good_server [JArr demo_items] demo_world of
          Some (Inr res, w') \<Rightarrow> 2 < length res | _ \<Rightarrow> False"
    by code_simp
  then obtain res w' where
    r: "embed_batch good_server [JArr demo_items] demo_world = Some (Inr res, w')"
    and l: "2 < length res"
    by (auto split: option.splits prod.splits sum.splits)
  have "normalizeBatchInputs (coerceBatchInputsFromArgs [JArr demo_items]) ! 2 = '' ''"
    by code_simp
  with embed_batch_tokens [OF r l] have "tokens (res ! 2) = Some (estimateTokens '' '')"
    by (simp add: estimateTokens_def)
  moreover have "estimateTokens '' '' = 1"
    by code_simp
  ultimately show ?thesis
    using r l by simp
qed

section \<open>Chunking: the groups partition the inputs\<close>

lemma slice_step:
  assumes "0 \<le> i" "0 < q" "i < rat_of_nat (length xs)"
  shows "slice xs (Fin i) (Fin (i + q)) @ drop (nat \<lfloor>i + q\<rfloor>) xs = drop (nat \<lfloor>i\<rfloor>) xs"
proof -
  let ?a = "nat \<lfloor>i\<rfloor>" and ?b = "nat \<lfloor>i + q\<rfloor>" and ?L = "length xs"
  from assms have a: "?a < ?L"
    by (metis floor_less_iff floor_of_nat nat_int of_nat_less_iff zless_nat_conj zero_le_floor
        le_less_trans of_int_of_nat_eq not_less)
  from assms have ab: "?a \<le> ?b"
    by (simp add: floor_mono nat_mono)
  from assms have t: "trunc i = \<lfloor>i\<rfloor>" "trunc (i + q) = \<lfloor>i + q\<rfloor>" "0 \<le> \<lfloor>i\<rfloor>" "0 \<le> \<lfloor>i + q\<rfloor>"
    by (simp_all add: trunc_def)
  then have s: "slice xs (Fin i) (Fin (i + q)) = take (min ?b ?L - ?a) (drop ?a xs)"
    using a by (simp add: slice_def Let_def min_def)
  show ?thesis
  proof (cases "?b \<le> ?L")
    case True
    from ab have "drop (?b - ?a) (drop ?a xs) = drop ?b xs"
      by simp
    then have "take (?b - ?a) (drop ?a xs) @ drop ?b xs = drop ?a xs"
      using append_take_drop_id [of "?b - ?a" "drop ?a xs"] by simp
    moreover from True have "min ?b ?L = ?b"
      by simp
    ultimately show ?thesis
      using s by simp
  next
    case False
    with s a show ?thesis
      by (simp add: min_def)
  qed
qed

lemma chunk_loop_fin:
  assumes "0 < q"
  shows "0 \<le> i \<Longrightarrow>
         \<exists>gs. chunk_loop xs (Fin q) (Fin i) out = Some (out @ gs)
              \<and> concat gs = drop (nat \<lfloor>i\<rfloor>) xs"
proof (induction "nat \<lceil>(rat_of_nat (length xs) - i) / q\<rceil>" arbitrary: i out rule: less_induct)
  case less
  show ?case
  proof (cases "i < rat_of_nat (length xs)")
    case False
    then have "int (length xs) \<le> \<lfloor>i\<rfloor>"
      by (simp add: le_floor_iff)
    then have "drop (nat \<lfloor>i\<rfloor>) xs = []"
      by simp
    with False show ?thesis
      by (subst chunk_loop.simps) simp
  next
    case True
    with assms have pos: "0 < (rat_of_nat (length xs) - i) / q"
      by simp
    have "(rat_of_nat (length xs) - (i + q)) / q = (rat_of_nat (length xs) - i) / q - 1"
      using assms by (simp add: field_simps)
    then have "\<lceil>(rat_of_nat (length xs) - (i + q)) / q\<rceil> = \<lceil>(rat_of_nat (length xs) - i) / q\<rceil> - 1"
      by simp
    moreover from pos have "0 < \<lceil>(rat_of_nat (length xs) - i) / q\<rceil>"
      by (simp add: less_ceiling_iff)
    ultimately have m: "nat \<lceil>(rat_of_nat (length xs) - (i + q)) / q\<rceil>
                        < nat \<lceil>(rat_of_nat (length xs) - i) / q\<rceil>"
      by simp
    from less.prems assms have "0 \<le> i + q"
      by simp
    from less.hyps [OF m this, of "out @ [slice xs (Fin i) (Fin (i + q))]"]
    obtain gs where gs:
      "chunk_loop xs (Fin q) (Fin (i + q)) (out @ [slice xs (Fin i) (Fin (i + q))])
         = Some ((out @ [slice xs (Fin i) (Fin (i + q))]) @ gs)"
      "concat gs = drop (nat \<lfloor>i + q\<rfloor>) xs"
      by blast
    have "chunk_loop xs (Fin q) (Fin i) out
            = Some (out @ slice xs (Fin i) (Fin (i + q)) # gs)"
      using True gs(1) by (subst chunk_loop.simps) simp
    moreover have "concat (slice xs (Fin i) (Fin (i + q)) # gs) = drop (nat \<lfloor>i\<rfloor>) xs"
      using gs(2) slice_step [OF less.prems assms True] by simp
    ultimately show ?thesis
      by blast
  qed
qed

lemma chunk_PosInf: "chunk xs PosInf = Some (if xs = [] then [] else [xs])"
proof (cases "xs = []")
  case True
  then show ?thesis
    by (simp add: chunk_def chunk_loop.simps)
next
  case False
  have "chunk_loop xs PosInf PosInf [slice xs (Fin 0) PosInf] = Some [slice xs (Fin 0) PosInf]"
    by (subst chunk_loop.simps) simp
  moreover have "slice xs (Fin 0) PosInf = xs"
    by (simp add: slice_def trunc_def)
  ultimately show ?thesis
    using False unfolding chunk_def by (subst chunk_loop.simps) simp
qed

lemma chunk_positive:
  assumes "num_less (Fin 0) sz"
  shows "\<exists>gs. chunk xs sz = Some gs \<and> concat gs = xs"
proof (cases sz)
  case (Fin q)
  with assms have "0 < q" by simp
  from chunk_loop_fin [OF this, of 0 xs "[]"] Fin show ?thesis
    by (simp add: chunk_def)
next
  case PosInf
  then show ?thesis
    by (simp add: chunk_PosInf)
qed (use assms in simp_all)


section \<open>Order of the results\<close>

lemma ensureBatchSize_positive:
  "num_less (Fin 0) (batchSize (settings w)) \<Longrightarrow> num_less (Fin 0) (fst (ensureBatchSize E w))"
  by (simp add: ensureBatchSize_def Let_def split: option.splits)

lemma fetchJson_Inr:
  assumes "fetchJson E req w = (Inr d, w')"
  shows "\<exists>s. respond E (requests w) req = Http s (Parsed d)
             \<or> (respond E (requests w) req = Http s NoText \<and> d = JNull)"
  using assms
  by (auto simp: fetchJson_def Let_def split: reply.splits body.splits if_splits)

lemma extractEmbeddings_JNull: "extractEmbeddings JNull = Inr []"
  by (simp add: extractEmbeddings_def)

lemma embedOne_faithful:
  assumes single: "single_answers E f"
    and "embedOne E k t w = (Inr v, w')"
  shows "v = f t"
proof -
  obtain r w1 where c: "createEmbeddings E k (Single t) w = (r, w1)"
    by (cases "createEmbeddings E k (Single t) w")
  with assms(2) obtain d where r: "r = Inr d"
    by (cases r) (simp_all add: embedOne_def)
  with assms(2) c obtain es where e: "extractEmbeddings d = Inr (v # es)"
    by (auto simp: embedOne_def split: sum.splits list.splits)
  from c r fetchJson_Inr [of E "PostEmbeddings k (Single t)" w d w1]
  obtain s where "respond E (requests w) (PostEmbeddings k (Single t)) = Http s (Parsed d)
      \<or> d = JNull"
    by (auto simp: createEmbeddings_def)
  with e single show ?thesis
    by (auto simp: extractEmbeddings_JNull)
qed

lemma embed_each_faithful:
  assumes single: "single_answers E f"
  shows "embed_each E k g w = (Inr vs, w') \<Longrightarrow> vs = map f g"
proof (induction g arbitrary: w vs)
  case Nil
  then show ?case by simp
next
  case (Cons t ts)
  then show ?case
    by (auto split: prod.splits sum.splits dest: embedOne_faithful [OF single])
qed

lemma try_group_faithful:
  assumes batch: "batch_answers E f"
    and single: "single_answers E f"
    and run: "try_group E k g w = (Inr vs, w')"
  shows "vs = map f g"
proof -
  obtain r w1 where c: "createEmbeddings E k (Many g) w = (r, w1)"
    by (cases "createEmbeddings E k (Many g) w")
  with run obtain d where r: "r = Inr d"
    by (cases r) (simp_all add: try_group_def)
  with run c obtain embs where e: "extractEmbeddings d = Inr embs"
    by (cases "extractEmbeddings d") (simp_all add: try_group_def)
  show ?thesis
  proof (cases "length embs = length g")
    case False
    with run c r e have "embed_each E k g w1 = (Inr vs, w')"
      by (simp add: try_group_def)
    then show ?thesis
      by (rule embed_each_faithful [OF single])
  next
    case True
    with run c r e have vs: "vs = embs"
      by (simp add: try_group_def)
    from c r fetchJson_Inr [of E "PostEmbeddings k (Many g)" w d w1]
    obtain s where "respond E (requests w) (PostEmbeddings k (Many g)) = Http s (Parsed d)
        \<or> d = JNull"
      by (auto simp: createEmbeddings_def)
    then show ?thesis
    proof
      assume "respond E (requests w) (PostEmbeddings k (Many g)) = Http s (Parsed d)"
      with batch e True vs show ?thesis by blast
    next
      assume "d = JNull"
      with e True vs show ?thesis
        by (simp add: extractEmbeddings_JNull)
    qed
  qed
qed

lemma embed_group_faithful:
  assumes batch: "batch_answers E f"
    and single: "single_answers E f"
    and run: "embed_group E k g w = (Inr vs, w')"
  shows "vs = map f g"
proof -
  obtain r w1 where t: "try_group E k g w = (r, w1)"
    by (cases "try_group E k g w")
  show ?thesis
  proof (cases r)
    case (Inl e)
    with run t have "embed_each E k g w1 = (Inr vs, w')"
      by (simp add: embed_group_def)
    then show ?thesis
      by (rule embed_each_faithful [OF single])
  next
    case (Inr us)
    with run t have "try_group E k g w = (Inr vs, w')"
      by (simp add: embed_group_def)
    then show ?thesis
      by (rule try_group_faithful [OF batch single])
  qed
qed

lemma embed_groups_faithful:
  assumes batch: "batch_answers E f"
    and single: "single_answers E f"
  shows "embed_groups E k gs acc w = (Inr vs, w') \<Longrightarrow> vs = acc @ map f (concat gs)"
proof (induction gs arbitrary: acc w)
  case Nil
  then show ?case by simp
next
  case (Cons g gs)
  obtain r w1 where g: "embed_group E k g w = (r, w1)"
    by (cases "embed_group E k g w")
  with Cons.prems obtain us where r: "r = Inr us"
    by (cases r) simp_all
  with g have "us = map f g"
    by (auto dest: embed_group_faithful [OF batch single])
  moreover from Cons.prems g r
  have "embed_groups E k gs (acc @ us) (infer_dims (acc @ us) w1) = (Inr vs, w')"
    by simp
  from Cons.IH [OF this] have "vs = (acc @ us) @ map f (concat gs)" .
  ultimately show ?case by simp
qed

lemma padToLength_exact: "length vs = n \<Longrightarrow> padToLength w vs n = vs"
  by (simp add: padToLength_def)

lemma coerce_single_array: "xs \<noteq> [] \<Longrightarrow> coerceBatchInputsFromArgs [JArr xs] = xs"
  by (simp add: coerceBatchInputsFromArgs_def)

lemma extract_loop_embeddings:
  "extract_loop (map (\<lambda>v. JObj [(''embedding'', JArr v)]) vs) out = Inr (out @ vs)"
  by (induction vs arbitrary: out) simp_all

lemma extract_embedding_body:
  "embedding_body vs = Parsed d \<Longrightarrow> extractEmbeddings d = Inr vs"
  by (auto simp: embedding_body_def extractEmbeddings_def extract_loop_embeddings)

lemma good_server_batch: "batch_answers good_server vec_of"
  by (auto simp: good_server_def fixed_server_def dest!: extract_embedding_body)

lemma good_server_single: "single_answers good_server vec_of"
  by (auto simp: good_server_def fixed_server_def dest!: extract_embedding_body)

text \<open>
  C1. For a non-empty list of items, every list of results that \<^verbatim>\<open>embed_batch\<close> returns
  has exactly one result per item, whatever the server sent. The results are in the order
  of the items: when the resolved batch size is positive and the server embeds by content,
  the vectors are those of the normalized items, in order. With a positive batch size the
  call also ends (it returns or throws).
\<close>

theorem embed_batch_one_result_per_input:
  assumes "items \<noteq> []"
  shows "(embed_batch E [JArr items] w = Some (Inr res, w') \<longrightarrow>
            length res = length items
            \<and> (num_less (Fin 0) (fst (ensureBatchSize E w))
                 \<and> batch_answers E f \<and> single_answers E f
               \<longrightarrow> map vec res = map f (normalizeBatchInputs items)))
       \<and> (num_less (Fin 0) (fst (ensureBatchSize E w)) \<longrightarrow> embed_batch E [JArr items] w \<noteq> None)"
proof (intro conjI impI)
  assume run: "embed_batch E [JArr items] w = Some (Inr res, w')"
  from embed_batch_results [OF run] assms show "length res = length items"
    by (auto simp: coerce_single_array length_wrap_results)
next
  assume run: "embed_batch E [JArr items] w = Some (Inr res, w')"
  assume h: "num_less (Fin 0) (fst (ensureBatchSize E w))
     \<and> batch_answers E f \<and> single_answers E f"
  let ?nz = "normalizeBatchInputs items"
  from assms have c: "coerceBatchInputsFromArgs [JArr items] = items"
    by (rule coerce_single_array)
  from h have batch: "batch_answers E f" and single: "single_answers E f"
    by blast+
  from run assms c have "coerceBatchInputsFromArgs [JArr items] \<noteq> []"
    by simp
  with run show "map vec res = map f ?nz"
  proof (cases rule: embed_batch_cases)
    case (returns k w2 gs vectors)
    from h chunk_positive [of "fst (ensureBatchSize E w)" ?nz] returns(2) c
    have "concat gs = ?nz"
      by auto
    with embed_groups_faithful [OF batch single returns(3)] have v: "vectors = map f ?nz"
      by simp
    then have "length vectors = length items"
      by (simp add: length_normalizeBatchInputs)
    with returns(4) c v show ?thesis
      by (simp add: padToLength_exact map_vec_wrap_results)
  qed simp_all
next
  assume "num_less (Fin 0) (fst (ensureBatchSize E w))"
  from chunk_positive [OF this, of "normalizeBatchInputs (coerceBatchInputsFromArgs [JArr items])"]
  show "embed_batch E [JArr items] w \<noteq> None"
    by (auto simp: embed_batch_def Let_def split: prod.splits sum.splits)
qed


theorem embed_batch_one_result_per_input_witness:
  "\<exists>res w'. embed_batch good_server [JArr demo_items] demo_world = Some (Inr res, w')
      \<and> length res = 3 \<and> map vec res = [vec_of ''hello'', vec_of ''world'', vec_of '' '']"
proof -
  have "case embed_batch good_server [JArr demo_items] demo_world of
          Some (Inr res, w') \<Rightarrow> True | _ \<Rightarrow> False"
    by code_simp
  then obtain res w' where
    r: "embed_batch good_server [JArr demo_items] demo_world = Some (Inr res, w')"
    by (auto split: option.splits prod.splits sum.splits)
  have p: "num_less (Fin 0) (fst (ensureBatchSize good_server demo_world))"
    by code_simp
  have n: "normalizeBatchInputs demo_items = [''hello'', ''world'', '' '']"
    by code_simp
  have "demo_items \<noteq> []"
    by (simp add: demo_items_def)
  from embed_batch_one_result_per_input [OF this, of good_server demo_world res w' vec_of]
    r p good_server_batch good_server_single n
  have "length res = length demo_items \<and> map vec res = map vec_of [''hello'', ''world'', '' '']"
    by simp
  with r show ?thesis
    by (simp add: demo_items_def)
qed

section \<open>Recovery of a group\<close>

lemma createEmbeddings_frame:
  "createEmbeddings E k input w = (r, w') \<Longrightarrow>
   w' = w\<lparr>requests := requests w @ [PostEmbeddings k input]\<rparr>"
  by (simp add: createEmbeddings_def fetchJson_frame)

lemma embedOne_frame:
  "embedOne E k t w = (r, w') \<Longrightarrow>
   w' = w\<lparr>requests := requests w @ [PostEmbeddings k (Single t)]\<rparr>"
  by (auto simp: embedOne_def split: prod.splits sum.splits list.splits
      dest: createEmbeddings_frame)


lemma embed_groups_append:
  "embed_groups E k (gs1 @ gs2) acc w
     = (case embed_groups E k gs1 acc w of
          (Inl e, w1) \<Rightarrow> (Inl e, w1)
        | (Inr vs, w1) \<Rightarrow> embed_groups E k gs2 vs w1)"
  by (induction gs1 arbitrary: acc w) (auto split: prod.splits sum.splits)

lemma embed_batch_groups:
  assumes "coerceBatchInputsFromArgs args \<noteq> []"
    and "ensureModelKey E (snd (ensureBatchSize E w)) = (Inr k, w2)"
    and "chunk (normalizeBatchInputs (coerceBatchInputsFromArgs args)) (fst (ensureBatchSize E w))
           = Some gs"
  shows "embed_batch E args w
           = Some (case embed_groups E k gs [] w2 of
                     (Inl e, w3) \<Rightarrow> (Inl e, w3)
                   | (Inr vectors, w3) \<Rightarrow>
                       (Inr (wrap_results (normalizeBatchInputs (coerceBatchInputsFromArgs args))
                               (padToLength w3 vectors
                                  (length (normalizeBatchInputs (coerceBatchInputsFromArgs args))))),
                        w3))"
proof -
  from assms(1) have "normalizeBatchInputs (coerceBatchInputsFromArgs args) \<noteq> []"
    by (simp add: normalizeBatchInputs_def)
  with assms show ?thesis
    by (cases "ensureBatchSize E w")
       (simp add: embed_batch_def Let_def split: prod.splits sum.splits)
qed

text \<open>
  C4. When the batch request of a group fails (the request itself, or the reading of its
  embeddings), the group is embedded text by text from the first text on. If all single
  requests succeed, the loop goes on with the next group, the vectors of this group
  appended; if one of them fails, \<^verbatim>\<open>embed_batch\<close> throws that error, and no further
  request is made.
\<close>

theorem batch_failure_falls_back:
  assumes "coerceBatchInputsFromArgs args \<noteq> []"
    and "ensureModelKey E (snd (ensureBatchSize E w)) = (Inr k, w2)"
    and "chunk (normalizeBatchInputs (coerceBatchInputsFromArgs args)) (fst (ensureBatchSize E w))
           = Some (gs1 @ g # gs2)"
    and "embed_groups E k gs1 [] w2 = (Inr acc, w3)"
    and "createEmbeddings E k (Many g) w3 = (Inl e0, w4)
         \<or> (\<exists>d. createEmbeddings E k (Many g) w3 = (Inr d, w4) \<and> extractEmbeddings d = Inl e0)"
  shows "embed_group E k g w3 = embed_each E k g w4
       \<and> (\<forall>e w5. embed_each E k g w4 = (Inl e, w5) \<longrightarrow>
             embed_batch E args w = Some (Inl e, w5))
       \<and> (\<forall>vs w5. embed_each E k g w4 = (Inr vs, w5) \<longrightarrow>
             embed_groups E k (gs1 @ g # gs2) [] w2
               = embed_groups E k gs2 (acc @ vs) (infer_dims (acc @ vs) w5))"
proof -
  from assms(5) have t: "try_group E k g w3 = (Inl e0, w4)"
    by (auto simp: try_group_def)
  then have g: "embed_group E k g w3 = embed_each E k g w4"
    by (simp add: embed_group_def)
  have a: "embed_groups E k (gs1 @ g # gs2) [] w2 = embed_groups E k (g # gs2) acc w3"
    using assms(4) by (simp add: embed_groups_append)
  have "embed_batch E args w = Some (Inl e, w5)" if "embed_each E k g w4 = (Inl e, w5)" for e w5
    using that g a by (simp add: embed_batch_groups [OF assms(1-3)])
  moreover have "embed_groups E k (gs1 @ g # gs2) [] w2
               = embed_groups E k gs2 (acc @ vs) (infer_dims (acc @ vs) w5)"
    if "embed_each E k g w4 = (Inr vs, w5)" for vs w5
    using that g a by simp
  ultimately show ?thesis
    using g by blast
qed

theorem batch_failure_falls_back_witness:
  "(\<exists>w'. embed_batch refusing_server [JArr demo_items] demo_world = Some (Inl (HttpStatus 500), w'))
   \<and> (\<exists>vs w'. embed_groups single_only_server ''nomic'' [[''hello'', ''world''], ['' '']] []
                 (snd (ensureModelKey single_only_server
                         (snd (ensureBatchSize single_only_server demo_world))))
               = (Inr vs, w')
           \<and> vs = [vec_of ''hello'', vec_of ''world'', vec_of '' ''])"
proof -
  let ?args = "[JArr demo_items]"
  have c: "coerceBatchInputsFromArgs ?args \<noteq> []"
    by code_simp
  txt \<open>The refusing server: the first group fails, and so does its first text.\<close>
  let ?R = refusing_server
  let ?r2 = "snd (ensureModelKey ?R (snd (ensureBatchSize ?R demo_world)))"
  let ?r4 = "?r2\<lparr>requests := requests ?r2 @ [PostEmbeddings ''nomic'' (Many [''hello'', ''world''])]\<rparr>"
  have rk: "ensureModelKey ?R (snd (ensureBatchSize ?R demo_world)) = (Inr ''nomic'', ?r2)"
    by code_simp
  have rc: "chunk (normalizeBatchInputs (coerceBatchInputsFromArgs ?args))
              (fst (ensureBatchSize ?R demo_world)) = Some ([] @ [''hello'', ''world''] # [['' '']])"
    by code_simp
  have rb: "embed_groups ?R ''nomic'' [] [] ?r2 = (Inr [], ?r2)"
    by simp
  have rf: "createEmbeddings ?R ''nomic'' (Many [''hello'', ''world'']) ?r2 = (Inl (HttpStatus 500), ?r4)"
    by (simp add: createEmbeddings_def fetchJson_def refusing_server_def fixed_server_def)
  have "\<exists>w5. embed_each ?R ''nomic'' [''hello'', ''world''] ?r4 = (Inl (HttpStatus 500), w5)"
    by (simp add: embedOne_def createEmbeddings_def fetchJson_def refusing_server_def
        fixed_server_def)
  then obtain w5 where re: "embed_each ?R ''nomic'' [''hello'', ''world''] ?r4 = (Inl (HttpStatus 500), w5)"
    by blast
  from batch_failure_falls_back [OF c rk rc rb disjI1 [OF rf]] re
  have first: "embed_batch ?R ?args demo_world = Some (Inl (HttpStatus 500), w5)"
    by blast
  txt \<open>The server of single texts: the second group fails as a batch and is embedded text by text.\<close>
  let ?S = single_only_server
  let ?s2 = "snd (ensureModelKey ?S (snd (ensureBatchSize ?S demo_world)))"
  let ?s3 = "snd (embed_groups ?S ''nomic'' [[''hello'', ''world'']] [] ?s2)"
  let ?s4 = "?s3\<lparr>requests := requests ?s3 @ [PostEmbeddings ''nomic'' (Many ['' ''])]\<rparr>"
  have sk: "ensureModelKey ?S (snd (ensureBatchSize ?S demo_world)) = (Inr ''nomic'', ?s2)"
    by code_simp
  have sc: "chunk (normalizeBatchInputs (coerceBatchInputsFromArgs ?args))
              (fst (ensureBatchSize ?S demo_world)) = Some ([[''hello'', ''world'']] @ ['' ''] # [])"
    by code_simp
  have sb: "embed_groups ?S ''nomic'' [[''hello'', ''world'']] [] ?s2
              = (Inr [vec_of ''hello'', vec_of ''world''], ?s3)"
    by code_simp
  have sf: "createEmbeddings ?S ''nomic'' (Many ['' '']) ?s3 = (Inl (HttpStatus 500), ?s4)"
    by (simp add: createEmbeddings_def fetchJson_def single_only_server_def fixed_server_def)
  have "\<exists>w5. embed_each ?S ''nomic'' ['' ''] ?s4 = (Inr [vec_of '' ''], w5)"
    by (simp add: embedOne_def createEmbeddings_def fetchJson_def single_only_server_def
        fixed_server_def embedding_body_def extractEmbeddings_def)
  then obtain w6 where se: "embed_each ?S ''nomic'' ['' ''] ?s4 = (Inr [vec_of '' ''], w6)"
    by blast
  from batch_failure_falls_back [OF c sk sc sb disjI1 [OF sf]] se
  have "embed_groups ?S ''nomic'' ([[''hello'', ''world'']] @ ['' ''] # []) [] ?s2
          = embed_groups ?S ''nomic'' [] ([vec_of ''hello'', vec_of ''world''] @ [vec_of '' ''])
              (infer_dims ([vec_of ''hello'', vec_of ''world''] @ [vec_of '' '']) w6)"
    by blast
  then have second: "embed_groups ?S ''nomic'' [[''hello'', ''world''], ['' '']] [] ?s2
          = (Inr [vec_of ''hello'', vec_of ''world'', vec_of '' ''],
             infer_dims [vec_of ''hello'', vec_of ''world'', vec_of '' ''] w6)"
    by simp
  from first second show ?thesis
    by blast
qed

section \<open>Recovery after a count mismatch\<close>









section \<open>The single embedding\<close>

lemma embed_batch_empty: "embed_batch E [JArr []] w = Some (Inr [], w)"
  by (simp add: embed_batch_def coerceBatchInputsFromArgs_def is_object_def)

text \<open>
  C9. Called with an array of \<open>n \<ge> 1\<close> items, \<^verbatim>\<open>embed\<close> passes the array to
  \<^verbatim>\<open>embed_batch\<close> as it is: it ends, throws and changes the state as that call does, and
  when the call returns its \<open>n\<close> results, \<^verbatim>\<open>embed\<close> returns the first and drops the others.
  Called with a value that is not an array, it behaves as on the list of that one value.
  Whenever \<^verbatim>\<open>embed_batch\<close> returns no result, as it does on the empty array, \<^verbatim>\<open>embed\<close>
  returns the object \<^verbatim>\<open>{ vec: [] }\<close>.
\<close>

theorem embed_first_result:
  "(xs \<noteq> [] \<longrightarrow>
      (case embed_batch E [JArr xs] w of
         None \<Rightarrow> embed E (JArr xs) w = None
       | Some (Inl e, w1) \<Rightarrow> embed E (JArr xs) w = Some (Inl e, w1)
       | Some (Inr items, w1) \<Rightarrow>
           length items = length xs \<and> embed E (JArr xs) w = Some (Inr (items ! 0), w1)))
   \<and> ((\<forall>ys. v \<noteq> JArr ys) \<longrightarrow> embed E v w = embed E (JArr [v]) w)
   \<and> (\<forall>w1. embed_batch E [JArr xs] w = Some (Inr [], w1) \<longrightarrow>
         embed E (JArr xs) w = Some (Inr \<lparr>vec = [], tokens = None\<rparr>, w1))
   \<and> embed E (JArr []) w = Some (Inr \<lparr>vec = [], tokens = None\<rparr>, w)"
proof (intro conjI impI allI)
  assume ne: "xs \<noteq> []"
  show "case embed_batch E [JArr xs] w of
         None \<Rightarrow> embed E (JArr xs) w = None
       | Some (Inl e, w1) \<Rightarrow> embed E (JArr xs) w = Some (Inl e, w1)
       | Some (Inr items, w1) \<Rightarrow>
           length items = length xs \<and> embed E (JArr xs) w = Some (Inr (items ! 0), w1)"
  proof (cases "embed_batch E [JArr xs] w")
    case None
    then show ?thesis by (simp add: embed_def)
  next
    case (Some p)
    obtain r w1 where p: "p = (r, w1)" by (cases p)
    show ?thesis
    proof (cases r)
      case (Inl e)
      with Some p show ?thesis by (simp add: embed_def)
    next
      case (Inr items)
      with Some p have run: "embed_batch E [JArr xs] w = Some (Inr items, w1)"
        by simp
      from embed_batch_results [OF run] ne have l: "length items = length xs"
        by (auto simp: coerce_single_array length_wrap_results)
      with ne obtain r rs where "items = r # rs"
        by (cases items) auto
      with run l show ?thesis
        by (simp add: embed_def)
    qed
  qed
next
  assume "\<forall>ys. v \<noteq> JArr ys"
  then show "embed E v w = embed E (JArr [v]) w"
    by (cases v) (simp_all add: embed_def)
next
  fix w1
  assume "embed_batch E [JArr xs] w = Some (Inr [], w1)"
  then show "embed E (JArr xs) w = Some (Inr \<lparr>vec = [], tokens = None\<rparr>, w1)"
    by (simp add: embed_def)
next
  show "embed E (JArr []) w = Some (Inr \<lparr>vec = [], tokens = None\<rparr>, w)"
    by (simp add: embed_def embed_batch_empty)
qed

theorem embed_first_result_witness:
  "(\<exists>r w'. embed good_server (JArr demo_items) demo_world = Some (Inr r, w')
       \<and> vec r = vec_of ''hello''
       \<and> requests w'
           = [GetModels, PostEmbeddings ''7'' (Many [''hello'', ''world'']),
              PostEmbeddings ''7'' (Many ['' ''])])
   \<and> embed good_server (JStr ''hello'') demo_world
       = embed good_server (JArr [JStr ''hello'']) demo_world
   \<and> embed good_server (JArr []) demo_world
       = Some (Inr \<lparr>vec = [], tokens = None\<rparr>, demo_world)"
proof -
  have "case embed_batch good_server [JArr demo_items] demo_world of
          Some (Inr items, w1) \<Rightarrow>
            vec (items ! 0) = vec_of ''hello''
            \<and> requests w1
                = [GetModels, PostEmbeddings ''7'' (Many [''hello'', ''world'']),
                   PostEmbeddings ''7'' (Many ['' ''])]
        | _ \<Rightarrow> False"
    by code_simp
  then obtain items w1 where
    r: "embed_batch good_server [JArr demo_items] demo_world = Some (Inr items, w1)"
    and v: "vec (items ! 0) = vec_of ''hello''"
    and q: "requests w1
                = [GetModels, PostEmbeddings ''7'' (Many [''hello'', ''world'']),
                   PostEmbeddings ''7'' (Many ['' ''])]"
    by (auto split: option.splits prod.splits sum.splits)
  have ne: "demo_items \<noteq> []"
    by (simp add: demo_items_def)
  from embed_first_result [of demo_items good_server demo_world "JStr ''hello''"] ne r v q
  show ?thesis
    by simp
qed

section \<open>The batch size and the model configuration\<close>

lemma this_data_update_data:
  "this_data (update_data f w) = map_option f (this_data w)"
  by (simp add: this_data_def update_data_def split: option.splits)

lemma data_field_update_data:
  "data_field g (update_data f w) = (case this_data w of None \<Rightarrow> JUndefined | Some d \<Rightarrow> g (f d))"
  by (simp add: data_field_def this_data_update_data split: option.splits)

lemma data_field_update_data_same:
  assumes "\<And>d. g (f d) = g d"
  shows "data_field g (update_data f w) = data_field g w"
  by (cases "this_data w") (simp_all add: data_field_def this_data_update_data assms)

lemma this_model_call_debounce_save:
  "this_model (call_debounce_save w) = this_model w"
  by (simp add: call_debounce_save_def split: option.splits)

lemma data_field_call_debounce_save:
  "data_field g (call_debounce_save w) = data_field g w"
  by (simp add: data_field_def this_data_def this_model_call_debounce_save)

lemma this_data_call_debounce_save:
  "this_data (call_debounce_save w) = this_data w"
  by (simp add: this_data_def this_model_call_debounce_save)

lemma saves_call_debounce_save: "saves w \<le> saves (call_debounce_save w)"
  by (simp add: call_debounce_save_def split: option.splits)

lemma saves_update_data: "saves (update_data f w) = saves w"
  by (simp add: update_data_def split: option.splits)

lemmas state_simps =
  this_model_call_debounce_save data_field_call_debounce_save this_data_call_debounce_save
  saves_update_data

lemma listModels_model:
  "listModels E r w = (x, w') \<Longrightarrow> this_model w' = this_model w \<and> saves w' = saves w"
  by (auto simp: listModels_def Let_def split: if_splits prod.splits sum.splits
      dest!: fetchJson_frame)

lemma get_models_sizes:
  assumes "get_models E a w = (x, w')"
  shows "sizes w' = sizes w \<and> saves w' = saves w"
proof -
  obtain y w1 where l: "listModels E (coerceRefreshArg a) w = (y, w1)"
    by (cases "listModels E (coerceRefreshArg a) w")
  from listModels_model [OF l] have m: "this_model w1 = this_model w" "saves w1 = saves w"
    by simp_all
  then have d: "data_field batch_size w1 = data_field batch_size w"
    "data_field max_batch_size w1 = data_field max_batch_size w" "this_data w1 = this_data w"
    by (simp_all add: data_field_def this_data_def)
  from assms l have "w' = w1 \<or> w' = update_data (\<lambda>d. d\<lparr>provider_models := JObj (projr y)\<rparr>) w1"
    by (auto simp: get_models_def Let_def split: sum.splits option.splits if_splits)
  then show ?thesis
    using m d by (auto simp: data_field_update_data_same state_simps)
qed

lemma ensureModelKey_sizes:
  assumes "ensureModelKey E w = (x, w')"
  shows "sizes w' = sizes w \<and> saves w \<le> saves w'"
proof (cases "configured_key w = []")
  case False
  with assms show ?thesis
    by (simp add: ensureModelKey_def)
next
  case True
  obtain y w1 where g: "get_models E (JBool True) w = (y, w1)"
    by (cases "get_models E (JBool True) w")
  from get_models_sizes [OF g] have s: "sizes w1 = sizes w" "saves w1 = saves w"
    by simp_all
  from assms True g have
    "w' = w1 \<or> (\<exists>k. w' = call_debounce_save
                          (update_data (\<lambda>d. d\<lparr>model_key := JStr k, model := JStr k\<rparr>) w1))"
    by (auto simp: ensureModelKey_def Let_def split: sum.splits option.splits if_splits list.splits)
  then show ?thesis
  proof
    assume "w' = w1"
    with s show ?thesis by simp
  next
    assume "\<exists>k. w' = call_debounce_save
                          (update_data (\<lambda>d. d\<lparr>model_key := JStr k, model := JStr k\<rparr>) w1)"
    then obtain k where w': "w' = call_debounce_save
                          (update_data (\<lambda>d. d\<lparr>model_key := JStr k, model := JStr k\<rparr>) w1)"
      by blast
    have "saves w1 \<le> saves w'"
      unfolding w'
      using saves_call_debounce_save [of "update_data (\<lambda>d. d\<lparr>model_key := JStr k, model := JStr k\<rparr>) w1"]
      by (simp add: state_simps)
    moreover have "sizes w' = sizes w1"
      unfolding w' by (simp add: data_field_update_data_same state_simps)
    ultimately show ?thesis
      using s by simp
  qed
qed

lemma embed_each_model:
  "embed_each E k g w = (x, w') \<Longrightarrow> this_model w' = this_model w \<and> saves w' = saves w"
proof (induction g arbitrary: w x w')
  case Nil
  then show ?case by simp
next
  case (Cons t ts)
  obtain r w1 where o: "embedOne E k t w = (r, w1)"
    by (cases "embedOne E k t w")
  from embedOne_frame [OF o] have m: "this_model w1 = this_model w" "saves w1 = saves w"
    by simp_all
  show ?case
  proof (cases r)
    case (Inl e)
    with Cons.prems o m show ?thesis by simp
  next
    case (Inr v)
    obtain r' w2 where e: "embed_each E k ts w1 = (r', w2)"
      by (cases "embed_each E k ts w1")
    from Cons.IH [OF e] m have "this_model w2 = this_model w" "saves w2 = saves w"
      by simp_all
    moreover from Cons.prems o Inr e have "w' = w2"
      by (cases r') simp_all
    ultimately show ?thesis by simp
  qed
qed

lemma try_group_model:
  assumes "try_group E k g w = (x, w')"
  shows "this_model w' = this_model w \<and> saves w' = saves w"
proof -
  obtain r w1 where c: "createEmbeddings E k (Many g) w = (r, w1)"
    by (cases "createEmbeddings E k (Many g) w")
  from createEmbeddings_frame [OF c] have m: "this_model w1 = this_model w" "saves w1 = saves w"
    by simp_all
  from assms c have "w' = w1 \<or> (\<exists>y. embed_each E k g w1 = (y, w'))"
    by (auto simp: try_group_def split: sum.splits if_splits)
  with m show ?thesis
    by (auto dest: embed_each_model)
qed

lemma embed_group_model:
  assumes "embed_group E k g w = (x, w')"
  shows "this_model w' = this_model w \<and> saves w' = saves w"
proof -
  obtain r w1 where t: "try_group E k g w = (r, w1)"
    by (cases "try_group E k g w")
  from try_group_model [OF t] have m: "this_model w1 = this_model w" "saves w1 = saves w"
    by simp_all
  from assms t have "w' = w1 \<or> (\<exists>y. embed_each E k g w1 = (y, w'))"
    by (auto simp: embed_group_def split: sum.splits)
  with m show ?thesis
    by (auto dest: embed_each_model)
qed

lemma infer_dims_sizes: "sizes (infer_dims vs w) = sizes w \<and> saves w \<le> saves (infer_dims vs w)"
proof -
  have "infer_dims vs w = w
      \<or> (\<exists>n. infer_dims vs w = call_debounce_save (update_data (\<lambda>d. d\<lparr>dims := n\<rparr>) w))"
    by (auto simp: infer_dims_def split: list.splits option.splits)
  then show ?thesis
  proof
    assume "infer_dims vs w = w"
    then show ?thesis by simp
  next
    assume "\<exists>n. infer_dims vs w = call_debounce_save (update_data (\<lambda>d. d\<lparr>dims := n\<rparr>) w)"
    then obtain n where i: "infer_dims vs w = call_debounce_save (update_data (\<lambda>d. d\<lparr>dims := n\<rparr>) w)"
      by blast
    have "saves w \<le> saves (infer_dims vs w)"
      unfolding i using saves_call_debounce_save [of "update_data (\<lambda>d. d\<lparr>dims := n\<rparr>) w"]
      by (simp add: state_simps)
    moreover have "sizes (infer_dims vs w) = sizes w"
      unfolding i by (simp add: data_field_update_data_same state_simps)
    ultimately show ?thesis by simp
  qed
qed

lemma embed_groups_sizes:
  "embed_groups E k gs acc w = (x, w') \<Longrightarrow> sizes w' = sizes w \<and> saves w \<le> saves w'"
proof (induction gs arbitrary: acc w)
  case Nil
  then show ?case by simp
next
  case (Cons g gs)
  obtain r w1 where g: "embed_group E k g w = (r, w1)"
    by (cases "embed_group E k g w")
  from embed_group_model [OF g] have m: "sizes w1 = sizes w" "saves w1 = saves w"
    by (simp_all add: data_field_def this_data_def)
  show ?case
  proof (cases r)
    case (Inl e)
    with Cons.prems g m show ?thesis by simp
  next
    case (Inr vs)
    with Cons.prems g
    have "embed_groups E k gs (acc @ vs) (infer_dims (acc @ vs) w1) = (x, w')"
      by simp
    from Cons.IH [OF this] infer_dims_sizes [of "acc @ vs" w1] m show ?thesis
      by simp
  qed
qed

lemma embed_batch_sizes:
  assumes "coerceBatchInputsFromArgs args \<noteq> []"
    and "embed_batch E args w = Some (r, w')"
  shows "sizes w' = sizes (snd (ensureBatchSize E w))
       \<and> saves (snd (ensureBatchSize E w)) \<le> saves w'"
  using assms(2,1)
proof (cases rule: embed_batch_cases)
  case (key_fails e)
  then show ?thesis
    by (auto dest: ensureModelKey_sizes)
next
  case (groups_fail k w2 gs e)
  from ensureModelKey_sizes [OF groups_fail(1)] embed_groups_sizes [OF groups_fail(3)]
  show ?thesis by simp
next
  case (returns k w2 gs vectors)
  from ensureModelKey_sizes [OF returns(1)] embed_groups_sizes [OF returns(3)]
  show ?thesis by simp
qed

text \<open>
  C10, as stated, fails for a call of \<^verbatim>\<open>embed_batch\<close> without inputs: the call returns
  before the batch size is resolved, and a model whose batch size is missing is left as it
  is.
\<close>

theorem batch_size_counterexample:
  "embed_batch good_server [JArr []] (initial_world (Some blank_model) 0)
     = Some (Inr [], initial_world (Some blank_model) 0)
   \<and> data_field batch_size (initial_world (Some blank_model) 0) = JUndefined"
  by (simp add: embed_batch_empty data_field_def this_data_def initial_world_def blank_model_def
      blank_data_def)

text \<open>
  C10, amended. On a model that has a data object, reading the getter \<^verbatim>\<open>batch_size\<close>
  returns the resolved batch size (the number the batch size of the model converts to, if
  that is finite and positive, and the default of the settings otherwise) and writes to the
  model: each of \<^verbatim>\<open>batch_size\<close> and \<^verbatim>\<open>max_batch_size\<close> that is not a finite positive
  number is set to the resolved batch size, a field that is one is left as it is, and the
  save hook, if the model has one, is invoked once. Every call of \<^verbatim>\<open>embed_batch\<close> with a
  non-empty list of inputs resolves the batch size first, so when it ends the two fields
  are as the getter leaves them.
\<close>

theorem batch_size_getter_writes:
  assumes "this_model w = Some m" and "data m = Some d"
  shows "fst (get_batch_size E w)
           = (if isFinite (JNum (to_Number E (batch_size d))) \<and> num_less (Fin 0) (to_Number E (batch_size d))
              then to_Number E (batch_size d) else batchSize (settings w))
       \<and> data_field batch_size (snd (get_batch_size E w))
           = (if isFinite (batch_size d) \<and> \<not> le_zero (batch_size d) then batch_size d
              else JNum (fst (get_batch_size E w)))
       \<and> data_field max_batch_size (snd (get_batch_size E w))
           = (if isFinite (max_batch_size d) \<and> \<not> le_zero (max_batch_size d) then max_batch_size d
              else JNum (fst (get_batch_size E w)))
       \<and> saves (snd (get_batch_size E w)) = (if debounce_save m then Suc (saves w) else saves w)
       \<and> (coerceBatchInputsFromArgs args \<noteq> [] \<longrightarrow>
            (\<forall>r w'. embed_batch E args w = Some (r, w') \<longrightarrow>
               data_field batch_size w' = data_field batch_size (snd (get_batch_size E w))
               \<and> data_field max_batch_size w' = data_field max_batch_size (snd (get_batch_size E w))
               \<and> saves (snd (get_batch_size E w)) \<le> saves w'))"
proof -
  from assms have d: "this_data w = Some d"
    by (simp add: this_data_def)
  then have f: "data_field batch_size w = batch_size d"
    by (simp add: data_field_def)
  have 1: "fst (get_batch_size E w)
           = (if isFinite (JNum (to_Number E (batch_size d))) \<and> num_less (Fin 0) (to_Number E (batch_size d))
              then to_Number E (batch_size d) else batchSize (settings w))"
    using d f by (simp add: get_batch_size_def ensureBatchSize_def Let_def cong del: if_weak_cong)
  have w': "snd (get_batch_size E w)
      = call_debounce_save
          (update_data
             (\<lambda>d. if \<not> isFinite (max_batch_size d) \<or> le_zero (max_batch_size d)
                  then d\<lparr>max_batch_size := JNum (fst (get_batch_size E w))\<rparr> else d)
             (update_data
                (\<lambda>d. if \<not> isFinite (batch_size d) \<or> le_zero (batch_size d)
                     then d\<lparr>batch_size := JNum (fst (get_batch_size E w))\<rparr> else d)
                w))"
    using d f by (simp add: get_batch_size_def ensureBatchSize_def Let_def cong del: if_weak_cong)
  have 2: "data_field batch_size (snd (get_batch_size E w))
           = (if isFinite (batch_size d) \<and> \<not> le_zero (batch_size d) then batch_size d
              else JNum (fst (get_batch_size E w)))"
    by (subst w') (auto simp: data_field_update_data this_data_update_data state_simps d)
  have 3: "data_field max_batch_size (snd (get_batch_size E w))
           = (if isFinite (max_batch_size d) \<and> \<not> le_zero (max_batch_size d) then max_batch_size d
              else JNum (fst (get_batch_size E w)))"
    by (subst w') (auto simp: data_field_update_data this_data_update_data state_simps d)
  have 4: "saves (snd (get_batch_size E w)) = (if debounce_save m then Suc (saves w) else saves w)"
    using assms by (subst w') (simp add: call_debounce_save_def update_data_def)
  have 5: "data_field batch_size w' = data_field batch_size (snd (get_batch_size E w))
               \<and> data_field max_batch_size w' = data_field max_batch_size (snd (get_batch_size E w))
               \<and> saves (snd (get_batch_size E w)) \<le> saves w'"
    if "coerceBatchInputsFromArgs args \<noteq> []" "embed_batch E args w = Some (r, w')" for r w'
    using embed_batch_sizes [OF that] by (simp add: get_batch_size_def)
  from 1 2 3 4 5 show ?thesis
    by blast
qed


theorem batch_size_getter_writes_witness:
  "fst (get_batch_size good_server sized_world) = Fin 16
   \<and> data_field batch_size (snd (get_batch_size good_server sized_world)) = JNum (Fin 16)
   \<and> data_field max_batch_size (snd (get_batch_size good_server sized_world)) = JNum (Fin 8)
   \<and> saves (snd (get_batch_size good_server sized_world)) = 1
   \<and> (\<exists>r w'. embed_batch good_server [JArr demo_items] sized_world = Some (r, w')
         \<and> data_field batch_size w' = JNum (Fin 16)
         \<and> data_field max_batch_size w' = JNum (Fin 8))"
proof -
  let ?d = "blank_data\<lparr>batch_size := JNum (Fin 0), max_batch_size := JNum (Fin 8)\<rparr>"
  let ?m = "blank_model\<lparr>data := Some ?d\<rparr>"
  have m: "this_model sized_world = Some ?m" and d: "data ?m = Some ?d"
    by (simp_all add: sized_world_def initial_world_def)
  have "case embed_batch good_server [JArr demo_items] sized_world of
          Some p \<Rightarrow> True | None \<Rightarrow> False"
    by code_simp
  then obtain r w' where
    r: "embed_batch good_server [JArr demo_items] sized_world = Some (r, w')"
    by (auto split: option.splits)
  have c: "coerceBatchInputsFromArgs [JArr demo_items] \<noteq> []"
    by code_simp
  from batch_size_getter_writes [OF m d, of good_server "[JArr demo_items]"] r c
  show ?thesis
    by (simp add: sized_world_def initial_world_def initial_settings_def blank_model_def
        blank_data_def)
qed

section \<open>The model key\<close>












end
